theory Spec2Isabelle
  imports Main "HOL-Library.Word" "HOL-Library.AList" "HOL-Library.Multiset"
begin

section \<open>NCNOHandler: status debounce and fleet command dispatch\<close>

text \<open>
  A shallow embedding of \<^verbatim>\<open>Landwatch/Landwatch_003/NCNOHandler.py\<close>.
  The module keeps three pieces of shared state (the timer handle
  \<^verbatim>\<open>_di_timeout_timer\<close>, the executor and the logger); they are fields of one
  state record that every function takes and returns. Exceptions are values:
  a function that can raise returns the state it reached together with
  \<open>Some e\<close> when \<open>e\<close> propagated out of it.
\<close>

subsection \<open>Constants of the module\<close>

definition MASTER_EUI :: string where
  "MASTER_EUI = ''a84041679d5cfcf2''"

definition TIMEOUT_SECONDS :: nat where
  "TIMEOUT_SECONDS = 30"

definition PAYLOAD_LOW_HEX :: string where
  "PAYLOAD_LOW_HEX = ''050011EA60''"

definition PAYLOAD_HIGH_HEX :: string where
  "PAYLOAD_HIGH_HEX = ''030000''"

subsection \<open>Exceptions\<close>

text \<open>
  The subclasses of \<^verbatim>\<open>Exception\<close> that the module can meet: \<^verbatim>\<open>OSError\<close> from
  \<^verbatim>\<open>open\<close>, \<^verbatim>\<open>IndexError\<close> from \<^verbatim>\<open>topic[5]\<close>, \<^verbatim>\<open>AttributeError\<close> from \<^verbatim>\<open>.get\<close> on
  a value that is no dict, \<^verbatim>\<open>TypeError\<close> from \<^verbatim>\<open>len\<close>, and \<^verbatim>\<open>ValueError\<close> from
  \<^verbatim>\<open>json.loads\<close>, \<^verbatim>\<open>bytes.fromhex\<close> and the \<^verbatim>\<open>ThreadPoolExecutor\<close> constructor.
\<close>

datatype exn = OSError | IndexError | AttributeError | TypeError | ValueError

subsection \<open>Strings and bytes\<close>

type_synonym byte = "8 word"

text \<open>
  \<^verbatim>\<open>str.strip()\<close> removes the characters for which \<^verbatim>\<open>str.isspace\<close> holds from
  both ends. Characters are the code points below 256; among them the
  whitespace ones are 9 to 13, 28 to 32, 133 and 160.
\<close>

definition isspace :: "char \<Rightarrow> bool" where
  "isspace c = (let n = (of_char c :: nat) in
     (9 \<le> n \<and> n \<le> 13) \<or> (28 \<le> n \<and> n \<le> 32) \<or> n = 133 \<or> n = 160)"

definition strip :: "string \<Rightarrow> string" where
  "strip s = rev (dropWhile isspace (rev (dropWhile isspace s)))"

text \<open>\<^verbatim>\<open>str.split(sep)\<close> for a separator of one character.\<close>

fun split_str :: "char \<Rightarrow> string \<Rightarrow> string list" where
  "split_str sep [] = [[]]"
| "split_str sep (c # cs) =
     (if c = sep then [] # split_str sep cs
      else (let r = split_str sep cs in (c # hd r) # tl r))"

text \<open>
  \<^verbatim>\<open>bytes.fromhex\<close>: ASCII whitespace is skipped before each pair of hexadecimal
  digits; anything else that is not such a pair raises \<^verbatim>\<open>ValueError\<close> (\<open>None\<close>).
\<close>

definition hexval :: "char \<Rightarrow> nat option" where
  "hexval c = (let n = (of_char c :: nat) in
     if 48 \<le> n \<and> n \<le> 57 then Some (n - 48)
     else if 97 \<le> n \<and> n \<le> 102 then Some (n - 87)
     else if 65 \<le> n \<and> n \<le> 70 then Some (n - 55)
     else None)"

definition ascii_space :: "char \<Rightarrow> bool" where
  "ascii_space c = (let n = (of_char c :: nat) in (9 \<le> n \<and> n \<le> 13) \<or> n = 32)"

fun bytes_fromhex :: "string \<Rightarrow> byte list option" where
  "bytes_fromhex [] = Some []"
| "bytes_fromhex [c] = (if ascii_space c then Some [] else None)"
| "bytes_fromhex (c # d # ds) =
     (if ascii_space c then bytes_fromhex (d # ds)
      else (case (hexval c, hexval d) of
              (Some h, Some l) \<Rightarrow>
                (case bytes_fromhex ds of
                   None \<Rightarrow> None
                 | Some bs \<Rightarrow> Some (of_nat (16 * h + l) # bs))
            | _ \<Rightarrow> None))"

subsection \<open>The fleet directory: \<^verbatim>\<open>read_controllers\<close>\<close>

text \<open>
  The CSV file is what \<^verbatim>\<open>csv.reader\<close> yields, a list of rows, or \<open>None\<close> when
  \<^verbatim>\<open>open\<close> raises. \<^verbatim>\<open>read_controllers\<close> has no handler of its own, so the
  \<^verbatim>\<open>OSError\<close> leaves it.
\<close>

type_synonym csv_file = "string list list option"

definition is_controller_row :: "string list \<Rightarrow> bool" where
  "is_controller_row row = (length row \<ge> 2 \<and> strip (row ! 1) = ''controller'')"

definition read_controllers :: "csv_file \<Rightarrow> exn + string list" where
  "read_controllers f =
     (case f of
        None \<Rightarrow> Inl OSError
      | Some rows \<Rightarrow> Inr (map (\<lambda>row. strip (row ! 0)) (filter is_controller_row rows)))"

subsection \<open>Status to payload\<close>

text \<open>
  The conditional expression of \<^verbatim>\<open>process_status\<close>:
  \<^verbatim>\<open>PAYLOAD_LOW_HEX if status == 'L' else PAYLOAD_HIGH_HEX\<close>.
\<close>

definition status_payload :: "string \<Rightarrow> string" where
  "status_payload status = (if status = ''L'' then PAYLOAD_LOW_HEX else PAYLOAD_HIGH_HEX)"

subsection \<open>Log calls\<close>

text \<open>
  The log is the sequence of calls made to \<^verbatim>\<open>logger.info\<close> and \<^verbatim>\<open>logger.error\<close>,
  one constructor per call site of the functions modelled here.
\<close>

datatype log_call =
    Error_No_controllers
  | Info_Processing string nat string
  | Info_Downlink_enqueued string string
  | Error_gRPC string string
  | Error_Timeout string
  | Error_Unexpected string string
  | Error_processing_message exn

datatype level = INFO | ERROR

fun level_of :: "log_call \<Rightarrow> level" where
  "level_of Error_No_controllers = ERROR"
| "level_of (Info_Processing status n payload) = INFO"
| "level_of (Info_Downlink_enqueued eui rid) = INFO"
| "level_of (Error_gRPC eui e) = ERROR"
| "level_of (Error_Timeout eui) = ERROR"
| "level_of (Error_Unexpected eui e) = ERROR"
| "level_of (Error_processing_message e) = ERROR"

subsection \<open>Timers, executor and module state\<close>

text \<open>
  A \<^verbatim>\<open>threading.Timer\<close> is a thread that waits on its \<^verbatim>\<open>finished\<close> event for
  \<^verbatim>\<open>interval\<close> seconds, calls its function if the event is still clear, and
  then sets the event; \<^verbatim>\<open>cancel()\<close> sets the event. \<open>phase\<close> is where the
  thread stands: waiting, past the test of the event and about to enter
  \<^verbatim>\<open>process_status('H')\<close>, past the locked section of that call, or ended.
\<close>

datatype phase = Waiting | Called | Rearmed | Done

record timer =
  interval :: nat
  started_at :: nat
  finished :: bool
  phase :: phase

definition outstanding :: "timer \<Rightarrow> bool" where
  "outstanding t = (phase t = Waiting \<and> \<not> finished t)"

definition deadline :: "timer \<Rightarrow> nat" where
  "deadline t = started_at t + interval t"

text \<open>
  The module state. \<open>timers\<close> holds every Timer object created so far, and
  \<open>di_timeout_timer\<close> is the global handle, an index into it. \<open>submitted\<close>
  holds the arguments of every \<^verbatim>\<open>_executor.submit(_enqueue, eui, payload)\<close>;
  the position of a work item identifies its future. \<open>mqtt_pc\<close> is the
  status the MQTT loop thread is dispatching when it stands between the locked
  section and the rest of \<^verbatim>\<open>process_status\<close>. \<open>uncaught\<close> collects the exceptions
  that ended a timer thread. The handle is only ever set to the index of the
  timer just appended, so it always names an existing timer.
\<close>

record state =
  controllers_list :: "string list"
  MAX_WORKERS :: int
  now :: nat
  timers :: "timer list"
  di_timeout_timer :: "nat option"
  mqtt_pc :: "string option"
  submitted :: "(string \<times> byte list) list"
  log_calls :: "log_call list"
  uncaught :: "exn list"

definition logger :: "log_call \<Rightarrow> state \<Rightarrow> state" where
  "logger c s = s\<lparr>log_calls := log_calls s @ [c]\<rparr>"

subsection \<open>Module load\<close>

text \<open>
  The statements executed at import: the first fleet read, the worker count
  and the executor. \<^verbatim>\<open>ThreadPoolExecutor(max_workers=n)\<close> raises \<^verbatim>\<open>ValueError\<close>
  when \<open>n \<le> 0\<close>. The handle starts as \<^verbatim>\<open>None\<close> and \<^verbatim>\<open>main\<close> creates no timer.
\<close>

definition initial_state :: "string list \<Rightarrow> state" where
  "initial_state ctrls =
     \<lparr>controllers_list = ctrls,
      MAX_WORKERS = min (int (length ctrls)) 10,
      now = 0,
      timers = [],
      di_timeout_timer = None,
      mqtt_pc = None,
      submitted = [],
      log_calls = [],
      uncaught = []\<rparr>"

definition load_module :: "csv_file \<Rightarrow> exn + state" where
  "load_module f =
     (case read_controllers f of
        Inl e \<Rightarrow> Inl e
      | Inr ctrls \<Rightarrow>
          (if min (int (length ctrls)) 10 \<le> 0 then Inl ValueError
           else Inr (initial_state ctrls)))"

subsection \<open>The environment of one dispatch cycle\<close>

text \<open>
  What the collaborators answer during one cycle: the CSV file as it is when
  the cycle reads it, and for every future the result of its \<^verbatim>\<open>_enqueue\<close> call
  and the moment it completes. A result is the acknowledgement returned or
  the exception raised, told apart as the handlers of the loop do:
  \<^verbatim>\<open>grpc.RpcError\<close>, \<^verbatim>\<open>TimeoutError\<close>, or any other \<^verbatim>\<open>Exception\<close>.
\<close>

datatype rpc_result =
    Ack string
  | RpcError string
  | TimeoutError
  | OtherException string

record env =
  csv :: csv_file
  enqueue_result :: "nat \<Rightarrow> rpc_result"
  completed_at :: "nat \<Rightarrow> nat"

subsection \<open>\<^verbatim>\<open>send_downlink_parallel\<close>\<close>

definition submit :: "string \<Rightarrow> byte list \<Rightarrow> state \<Rightarrow> nat \<times> state" where
  "submit eui payload s =
     (length (submitted s), s\<lparr>submitted := submitted s @ [(eui, payload)]\<rparr>)"

text \<open>
  The dict comprehension \<^verbatim>\<open>{_executor.submit(_enqueue, eui, payload): eui for eui in dev_euis}\<close>;
  the dict is an association list from futures to ids.
\<close>

fun submit_all ::
  "string list \<Rightarrow> byte list \<Rightarrow> (nat \<times> string) list \<Rightarrow> state \<Rightarrow> (nat \<times> string) list \<times> state" where
  "submit_all [] payload futures s = (futures, s)"
| "submit_all (eui # euis) payload futures s =
     (case submit eui payload s of
        (future, s') \<Rightarrow> submit_all euis payload (AList.update future eui futures) s')"

text \<open>
  \<^verbatim>\<open>as_completed\<close> yields the futures in the order in which they complete; the
  loop body looks the id up in the dict, so the loop runs over the pairs.
\<close>

definition as_completed :: "env \<Rightarrow> (nat \<times> string) list \<Rightarrow> (nat \<times> string) list" where
  "as_completed e futures = sort_key (\<lambda>fe. completed_at e (fst fe)) futures"

text \<open>The body of the loop: \<^verbatim>\<open>future.result()\<close> and the four branches of the \<^verbatim>\<open>try\<close>.\<close>

definition outcome_entry :: "string \<Rightarrow> rpc_result \<Rightarrow> log_call" where
  "outcome_entry eui r =
     (case r of
        Ack rid \<Rightarrow> Info_Downlink_enqueued eui rid
      | RpcError e \<Rightarrow> Error_gRPC eui e
      | TimeoutError \<Rightarrow> Error_Timeout eui
      | OtherException e \<Rightarrow> Error_Unexpected eui e)"

definition record_outcome :: "env \<Rightarrow> state \<Rightarrow> nat \<times> string \<Rightarrow> state" where
  "record_outcome e s fe = logger (outcome_entry (snd fe) (enqueue_result e (fst fe))) s"

definition send_downlink_parallel ::
  "env \<Rightarrow> string list \<Rightarrow> string \<Rightarrow> state \<Rightarrow> state \<times> exn option" where
  "send_downlink_parallel e dev_euis hex_payload s =
     (case bytes_fromhex hex_payload of
        None \<Rightarrow> (s, Some ValueError)
      | Some payload \<Rightarrow>
          (case submit_all dev_euis payload [] s of
             (futures, s') \<Rightarrow>
               (foldl (record_outcome e) s' (as_completed e futures), None)))"

subsection \<open>\<^verbatim>\<open>process_status\<close>\<close>

text \<open>
  The block under \<^verbatim>\<open>with _lock\<close>: cancel the timer the handle names, if any,
  then create and start a new one and store it in the handle.
\<close>

definition cancel_old :: "state \<Rightarrow> state" where
  "cancel_old s =
     (case di_timeout_timer s of
        None \<Rightarrow> s
      | Some i \<Rightarrow> s\<lparr>timers := (timers s)[i := (timers s ! i)\<lparr>finished := True\<rparr>]\<rparr>)"

definition start_new :: "state \<Rightarrow> state" where
  "start_new s =
     s\<lparr>timers := timers s @
          [\<lparr>interval = TIMEOUT_SECONDS, started_at = now s, finished = False, phase = Waiting\<rparr>],
       di_timeout_timer := Some (length (timers s))\<rparr>"

definition arm_timer :: "state \<Rightarrow> state" where
  "arm_timer s = start_new (cancel_old s)"

text \<open>The rest of \<^verbatim>\<open>process_status\<close>, outside the lock.\<close>

definition dispatch :: "env \<Rightarrow> string \<Rightarrow> state \<Rightarrow> state \<times> exn option" where
  "dispatch e status s =
     (case read_controllers (csv e) of
        Inl x \<Rightarrow> (s, Some x)
      | Inr ctrls \<Rightarrow>
          (if ctrls = [] then (logger Error_No_controllers s, None)
           else (let payload = status_payload status in
                 send_downlink_parallel e ctrls payload
                   (logger (Info_Processing status (length ctrls) payload) s))))"

definition process_status :: "env \<Rightarrow> string \<Rightarrow> state \<Rightarrow> state \<times> exn option" where
  "process_status e status s = dispatch e status (arm_timer s)"

subsection \<open>\<^verbatim>\<open>on_message\<close>\<close>

text \<open>
  The values \<^verbatim>\<open>json.loads\<close> returns. A dict is an association list read with
  \<open>map_of\<close>; its \<^verbatim>\<open>len\<close> is the number of its keys. A number is opaque to the
  handler, which only compares values with strings.
\<close>

datatype json =
    JNull
  | JBool bool
  | JNum int
  | JStr string
  | JArr "json list"
  | JObj "(string \<times> json) list"

text \<open>
  An MQTT message: its topic and the result of
  \<^verbatim>\<open>json.loads(msg.payload.decode())\<close>, \<open>None\<close> when that raises.
\<close>

record mqtt_message =
  msg_topic :: string
  msg_payload :: "json option"

text \<open>\<^verbatim>\<open>d.get(k, default)\<close>; a value that is no dict has no \<^verbatim>\<open>get\<close>.\<close>

definition py_get :: "json \<Rightarrow> string \<Rightarrow> json \<Rightarrow> exn + json" where
  "py_get d k dflt =
     (case d of
        JObj kvs \<Rightarrow> Inr (case map_of kvs k of None \<Rightarrow> dflt | Some v \<Rightarrow> v)
      | _ \<Rightarrow> Inl AttributeError)"

definition py_len :: "json \<Rightarrow> exn + nat" where
  "py_len d =
     (case d of
        JObj kvs \<Rightarrow> Inr (length (remdups (map fst kvs)))
      | JArr xs \<Rightarrow> Inr (length xs)
      | JStr str \<Rightarrow> Inr (length str)
      | _ \<Rightarrow> Inl TypeError)"

text \<open>Sequencing: an exception of the first computation skips the second.\<close>

definition and_then :: "exn + 'a \<Rightarrow> ('a \<Rightarrow> exn + 'b) \<Rightarrow> exn + 'b" where
  "and_then r k = (case r of Inl x \<Rightarrow> Inl x | Inr v \<Rightarrow> k v)"

text \<open>
  The body of the \<^verbatim>\<open>try\<close> up to the call of \<^verbatim>\<open>process_status\<close>: \<open>Inl\<close> is an
  exception, \<open>Inr None\<close> an event dropped by one of the tests, and
  \<open>Inr (Some di1)\<close> the call \<^verbatim>\<open>process_status(di1)\<close>. The \<^verbatim>\<open>and\<close> is evaluated
  left to right, so the payload is only inspected for an \<^verbatim>\<open>up\<close> event.
\<close>

definition on_message_filter :: "mqtt_message \<Rightarrow> exn + string option" where
  "on_message_filter msg =
     (let topic = split_str (CHR ''/'') (msg_topic msg) in
      if length topic \<le> 5 then Inl IndexError
      else
        (let eventType = topic ! 5 in
         case msg_payload msg of
           None \<Rightarrow> Inl ValueError
         | Some data \<Rightarrow>
             if eventType \<noteq> ''up'' then Inr None
             else
               and_then (py_get data ''deviceInfo'' (JObj [])) (\<lambda>info.
               and_then (py_get info ''devEui'' JNull) (\<lambda>eui.
                 if eui \<noteq> JStr MASTER_EUI then Inr None
                 else
                   and_then (py_get data ''object'' JNull) (\<lambda>obj.
                   and_then (py_len obj) (\<lambda>len_obj.
                     if len_obj \<noteq> 12 then Inr None
                     else
                       and_then (py_get data ''object'' (JObj [])) (\<lambda>obj'.
                       and_then (py_get obj' ''DI1_status'' JNull) (\<lambda>di1.
                         if di1 = JStr ''L'' then Inr (Some ''L'')
                         else if di1 = JStr ''H'' then Inr (Some ''H'')
                         else Inr None))))))))"

text \<open>The handler \<^verbatim>\<open>except Exception as e: logger.error(...)\<close>.\<close>

definition except_Exception :: "state \<times> exn option \<Rightarrow> state \<times> exn option" where
  "except_Exception r =
     (case r of
        (s, None) \<Rightarrow> (s, None)
      | (s, Some x) \<Rightarrow> (logger (Error_processing_message x) s, None))"

definition on_message :: "mqtt_message \<Rightarrow> env \<Rightarrow> state \<Rightarrow> state \<times> exn option" where
  "on_message msg e s =
     except_Exception
       (case on_message_filter msg of
          Inl x \<Rightarrow> (s, Some x)
        | Inr None \<Rightarrow> (s, None)
        | Inr (Some di1) \<Rightarrow> process_status e di1 s)"

subsection \<open>The threads\<close>

text \<open>
  The atomic actions of the running program. The MQTT loop thread handles one
  message at a time: \<open>Message\<close> is \<^verbatim>\<open>on_message\<close> up to the end of the locked
  section of \<^verbatim>\<open>process_status\<close>, \<open>MqttDispatch\<close> the rest of the call. A timer
  thread wakes (\<open>Wake\<close>) when its event is set or its interval has passed and
  tests the event; if clear it calls \<^verbatim>\<open>process_status('H')\<close>, whose locked
  section is \<open>TimerLock\<close> and whose rest is \<open>TimerDispatch\<close>. An exception that
  leaves the function ends the thread before \<^verbatim>\<open>finished.set()\<close>. \<open>Advance\<close>
  lets time pass. An action that cannot happen in a state yields \<open>None\<close>.
\<close>

datatype event =
    Advance nat
  | Message mqtt_message
  | MqttDispatch env
  | Wake nat
  | TimerLock nat
  | TimerDispatch nat env

definition set_phase :: "nat \<Rightarrow> phase \<Rightarrow> state \<Rightarrow> state" where
  "set_phase i p s = s\<lparr>timers := (timers s)[i := (timers s ! i)\<lparr>phase := p\<rparr>]\<rparr>"

definition timer_returns :: "nat \<Rightarrow> state \<Rightarrow> state" where
  "timer_returns i s =
     s\<lparr>timers := (timers s)[i := (timers s ! i)\<lparr>finished := True, phase := Done\<rparr>]\<rparr>"

definition timer_dies :: "nat \<Rightarrow> exn \<Rightarrow> state \<Rightarrow> state" where
  "timer_dies i x s =
     s\<lparr>timers := (timers s)[i := (timers s ! i)\<lparr>phase := Done\<rparr>],
       uncaught := uncaught s @ [x]\<rparr>"

fun step :: "event \<Rightarrow> state \<Rightarrow> state option" where
  "step (Advance d) s = Some (s\<lparr>now := now s + d\<rparr>)"
| "step (Message msg) s =
     (if mqtt_pc s \<noteq> None then None
      else
        (case on_message_filter msg of
           Inl x \<Rightarrow> Some (logger (Error_processing_message x) s)
         | Inr None \<Rightarrow> Some s
         | Inr (Some di1) \<Rightarrow> Some ((arm_timer s)\<lparr>mqtt_pc := Some di1\<rparr>)))"
| "step (MqttDispatch e) s =
     (case mqtt_pc s of
        None \<Rightarrow> None
      | Some di1 \<Rightarrow> Some ((fst (except_Exception (dispatch e di1 s)))\<lparr>mqtt_pc := None\<rparr>))"
| "step (Wake i) s =
     (if i < length (timers s) \<and> phase (timers s ! i) = Waiting
         \<and> (finished (timers s ! i) \<or> deadline (timers s ! i) \<le> now s)
      then Some (set_phase i (if finished (timers s ! i) then Done else Called) s)
      else None)"
| "step (TimerLock i) s =
     (if i < length (timers s) \<and> phase (timers s ! i) = Called
      then Some (set_phase i Rearmed (arm_timer s))
      else None)"
| "step (TimerDispatch i e) s =
     (if i < length (timers s) \<and> phase (timers s ! i) = Rearmed
      then (case dispatch e ''H'' s of
              (s', None) \<Rightarrow> Some (timer_returns i s')
            | (s', Some x) \<Rightarrow> Some (timer_dies i x s'))
      else None)"

fun run :: "event list \<Rightarrow> state \<Rightarrow> state option" where
  "run [] s = Some s"
| "run (ev # evs) s = (case step ev s of None \<Rightarrow> None | Some s' \<Rightarrow> run evs s')"

text \<open>
  Source silence: no message arrives, and each round the timer the handle
  names expires at its deadline and runs its call to the end.
\<close>

definition expiry :: "nat \<Rightarrow> env \<Rightarrow> state \<Rightarrow> event list" where
  "expiry i e s =
     [Advance (deadline (timers s ! i) - now s), Wake i, TimerLock i, TimerDispatch i e]"

fun silence :: "env list \<Rightarrow> state \<Rightarrow> state option" where
  "silence [] s = Some s"
| "silence (e # es) s =
     (case di_timeout_timer s of
        None \<Rightarrow> None
      | Some i \<Rightarrow> (case run (expiry i e s) s of None \<Rightarrow> None | Some s' \<Rightarrow> silence es s'))"

fun is_message :: "event \<Rightarrow> bool" where
  "is_message (Message msg) = True"
| "is_message ev = False"

text \<open>The members a cycle reads; none when the read raises.\<close>

definition fleet :: "env \<Rightarrow> string list" where
  "fleet e = (case read_controllers (csv e) of Inl x \<Rightarrow> [] | Inr ctrls \<Rightarrow> ctrls)"

subsection \<open>The worker pool\<close>

text \<open>
  \<^verbatim>\<open>ThreadPoolExecutor\<close> keeps a queue of work items and at most
  \<^verbatim>\<open>max_workers\<close> worker threads, each running one item at a time: an item
  leaves the queue only when fewer than \<^verbatim>\<open>max_workers\<close> items are running.
\<close>

record pool =
  max_workers :: int
  work_queue :: "nat list"
  running :: "nat list"

datatype pool_event = Submit nat | Start | Finish nat

fun pool_step :: "pool_event \<Rightarrow> pool \<Rightarrow> pool option" where
  "pool_step (Submit f) p = Some (p\<lparr>work_queue := work_queue p @ [f]\<rparr>)"
| "pool_step Start p =
     (case work_queue p of
        [] \<Rightarrow> None
      | f # q \<Rightarrow>
          (if int (length (running p)) < max_workers p
           then Some (p\<lparr>work_queue := q, running := running p @ [f]\<rparr>)
           else None))"
| "pool_step (Finish f) p =
     (if f \<in> set (running p) then Some (p\<lparr>running := remove1 f (running p)\<rparr>) else None)"

fun pool_run :: "pool_event list \<Rightarrow> pool \<Rightarrow> pool option" where
  "pool_run [] p = Some p"
| "pool_run (ev # evs) p = (case pool_step ev p of None \<Rightarrow> None | Some p' \<Rightarrow> pool_run evs p')"

definition executor :: "state \<Rightarrow> pool" where
  "executor s = \<lparr>max_workers = MAX_WORKERS s, work_queue = [], running = []\<rparr>"

subsection \<open>What an event carries\<close>

text \<open>
  The parts of a message the filter looks at: the sixth topic level, the
  device id under \<^verbatim>\<open>deviceInfo\<close>, the number of entries of \<^verbatim>\<open>object\<close>, and its
  \<^verbatim>\<open>DI1_status\<close>.
\<close>

definition event_type :: "mqtt_message \<Rightarrow> string option" where
  "event_type msg =
     (let topic = split_str (CHR ''/'') (msg_topic msg) in
      if length topic \<le> 5 then None else Some (topic ! 5))"

definition source_id :: "mqtt_message \<Rightarrow> string option" where
  "source_id msg =
     (case msg_payload msg of
        Some (JObj kvs) \<Rightarrow>
          (case map_of kvs ''deviceInfo'' of
             Some (JObj info) \<Rightarrow>
               (case map_of info ''devEui'' of Some (JStr eui) \<Rightarrow> Some eui | _ \<Rightarrow> None)
           | _ \<Rightarrow> None)
      | _ \<Rightarrow> None)"

definition object_size :: "mqtt_message \<Rightarrow> nat option" where
  "object_size msg =
     (case msg_payload msg of
        Some (JObj kvs) \<Rightarrow>
          (case map_of kvs ''object'' of
             Some (JObj obj) \<Rightarrow> Some (length (remdups (map fst obj)))
           | _ \<Rightarrow> None)
      | _ \<Rightarrow> None)"

definition status_token :: "mqtt_message \<Rightarrow> string option" where
  "status_token msg =
     (case msg_payload msg of
        Some (JObj kvs) \<Rightarrow>
          (case map_of kvs ''object'' of
             Some (JObj obj) \<Rightarrow>
               (case map_of obj ''DI1_status'' of Some (JStr tok) \<Rightarrow> Some tok | _ \<Rightarrow> None)
           | _ \<Rightarrow> None)
      | _ \<Rightarrow> None)"

text \<open>
  The condition of the specification: the source is the authoritative one and
  the token is a recognised one.
\<close>

definition spec_accepts :: "mqtt_message \<Rightarrow> string \<Rightarrow> bool" where
  "spec_accepts msg tok =
     (source_id msg = Some MASTER_EUI \<and> status_token msg = Some tok \<and> (tok = ''L'' \<or> tok = ''H''))"

text \<open>The condition of the code adds the event type and the size of the object.\<close>

definition accepts :: "mqtt_message \<Rightarrow> string \<Rightarrow> bool" where
  "accepts msg tok =
     (event_type msg = Some ''up'' \<and> object_size msg = Some 12 \<and> spec_accepts msg tok)"

subsection \<open>What a cycle leaves behind\<close>

text \<open>
  The work items, the log calls and the exception of one run of the unlocked
  part of \<^verbatim>\<open>process_status\<close>, written out from the environment; \<open>n\<close> is the
  number of futures that exist when the cycle starts.
\<close>

definition recorded :: "env \<Rightarrow> nat \<Rightarrow> string list \<Rightarrow> log_call list" where
  "recorded e n euis =
     map (\<lambda>fe. outcome_entry (snd fe) (enqueue_result e (fst fe)))
       (as_completed e (zip [n..<n + length euis] euis))"

definition status_bytes :: "string \<Rightarrow> byte list" where
  "status_bytes status = (if status = ''L'' then [0x05, 0x00, 0x11, 0xEA, 0x60] else [0x03, 0x00, 0x00])"

definition cycle_items :: "env \<Rightarrow> string \<Rightarrow> (string \<times> byte list) list" where
  "cycle_items e status = map (\<lambda>eui. (eui, status_bytes status)) (fleet e)"

definition cycle_log :: "env \<Rightarrow> string \<Rightarrow> nat \<Rightarrow> log_call list" where
  "cycle_log e status n =
     (case read_controllers (csv e) of
        Inl x \<Rightarrow> []
      | Inr ctrls \<Rightarrow>
          (if ctrls = [] then [Error_No_controllers]
           else Info_Processing status (length ctrls) (status_payload status) # recorded e n ctrls))"

definition cycle_exn :: "env \<Rightarrow> exn option" where
  "cycle_exn e = (case read_controllers (csv e) of Inl x \<Rightarrow> Some x | Inr ctrls \<Rightarrow> None)"

subsection \<open>Sample inputs\<close>

text \<open>
  A CSV file with three controller rows, two of them for the same device, and
  one row of another type; the second call times out and the futures
  complete in the reverse of the order of submission.
\<close>

definition sample_env :: env where
  "sample_env =
     \<lparr>csv = Some [[''d1'', ''controller''], [''d2 '', '' controller''],
                  [''gw'', ''gateway''], [''d1'', ''controller'']],
      enqueue_result = (\<lambda>f. if f = 1 then TimeoutError else Ack ''ok''),
      completed_at = (\<lambda>f. 10 - f)\<rparr>"

definition unreadable_env :: env where
  "unreadable_env = sample_env\<lparr>csv := None\<rparr>"

definition empty_env :: env where
  "empty_env = sample_env\<lparr>csv := Some [[''gw'', ''gateway'']]\<rparr>"

text \<open>An uplink of the master device with the twelve fields of a normal report.\<close>

definition sample_msg :: mqtt_message where
  "sample_msg =
     \<lparr>msg_topic = ''application/7/device/a84041679d5cfcf2/event/up'',
      msg_payload = Some (JObj
        [(''deviceInfo'', JObj [(''devEui'', JStr ''a84041679d5cfcf2'')]),
         (''object'', JObj
            [(''ACI1_mA'', JNum 0), (''ACI2_mA'', JNum 0), (''AVI1_V'', JNum 0),
             (''AVI2_V'', JNum 0), (''DI1_status'', JStr ''L''), (''DI2_status'', JStr ''H''),
             (''DO1_status'', JStr ''H''), (''DO2_status'', JStr ''H''),
             (''Hardware_mode'', JStr ''LT22222''), (''RO1_status'', JStr ''OFF''),
             (''RO2_status'', JStr ''OFF''), (''Work_mode'', JStr ''2ACI+2AVI'')])])\<rparr>"

text \<open>The same device and token in a report of one field.\<close>

definition short_msg :: mqtt_message where
  "short_msg =
     \<lparr>msg_topic = ''application/7/device/a84041679d5cfcf2/event/up'',
      msg_payload = Some (JObj
        [(''deviceInfo'', JObj [(''devEui'', JStr ''a84041679d5cfcf2'')]),
         (''object'', JObj [(''DI1_status'', JStr ''L'')])])\<rparr>"

text \<open>The same environment with every call acknowledged.\<close>

definition ack_env :: env where
  "ack_env = sample_env\<lparr>enqueue_result := (\<lambda>f. Ack ''ok'')\<rparr>"

text \<open>The state after the sample message has been handled at start-up.\<close>

definition armed_state :: state where
  "armed_state =
     \<lparr>controllers_list = [''d1''],
      MAX_WORKERS = 1,
      now = 0,
      timers = [\<lparr>interval = 30, started_at = 0, finished = False, phase = Waiting\<rparr>],
      di_timeout_timer = Some 0,
      mqtt_pc = None,
      submitted = [(''d1'', [0x05, 0x00, 0x11, 0xEA, 0x60]), (''d2'', [0x05, 0x00, 0x11, 0xEA, 0x60]),
                   (''d1'', [0x05, 0x00, 0x11, 0xEA, 0x60])],
      log_calls = [Info_Processing ''L'' 3 ''050011EA60'', Info_Downlink_enqueued ''d1'' ''ok'',
                   Error_Timeout ''d2'', Info_Downlink_enqueued ''d1'' ''ok''],
      uncaught = []\<rparr>"

text \<open>
  The state after the sample message has been handled, thirty seconds have
  passed and the first timer has woken and executed its locked section.
\<close>

definition rearmed_state :: state where
  "rearmed_state =
     \<lparr>controllers_list = [''d1''],
      MAX_WORKERS = 1,
      now = 30,
      timers = [\<lparr>interval = 30, started_at = 0, finished = True, phase = Rearmed\<rparr>,
                \<lparr>interval = 30, started_at = 30, finished = False, phase = Waiting\<rparr>],
      di_timeout_timer = Some 1,
      mqtt_pc = None,
      submitted = [(''d1'', [0x05, 0x00, 0x11, 0xEA, 0x60]), (''d2'', [0x05, 0x00, 0x11, 0xEA, 0x60]),
                   (''d1'', [0x05, 0x00, 0x11, 0xEA, 0x60])],
      log_calls = [Info_Processing ''L'' 3 ''050011EA60'', Info_Downlink_enqueued ''d1'' ''ok'',
                   Error_Timeout ''d2'', Info_Downlink_enqueued ''d1'' ''ok''],
      uncaught = []\<rparr>"

subsection \<open>The timer invariant\<close>

text \<open>Every timer that can still fire is the one the handle names.\<close>

definition handle_owns :: "state \<Rightarrow> bool" where
  "handle_owns s =
     (\<forall>i < length (timers s). outstanding (timers s ! i) \<longrightarrow> di_timeout_timer s = Some i)"

section \<open>Properties of one dispatch cycle\<close>

lemma update_fresh: "k \<notin> fst ` set al \<Longrightarrow> AList.update k v al = al @ [(k, v)]"
  by (induction al) auto

text \<open>Every future is new, so the dict gains one entry for each id of the list.\<close>

lemma submit_all_eq:
  "\<forall>k \<in> fst ` set futures. k < length (submitted s) \<Longrightarrow>
   submit_all euis payload futures s =
     (futures @ zip [length (submitted s)..<length (submitted s) + length euis] euis,
      s\<lparr>submitted := submitted s @ map (\<lambda>eui. (eui, payload)) euis\<rparr>)"
proof (induction euis arbitrary: futures s)
  case Nil
  then show ?case by simp
next
  case (Cons eui euis)
  let ?n = "length (submitted s)"
  let ?s' = "s\<lparr>submitted := submitted s @ [(eui, payload)]\<rparr>"
  have fresh: "?n \<notin> fst ` set futures" using Cons.prems by auto
  have upd: "AList.update ?n eui futures = futures @ [(?n, eui)]"
    using fresh by (rule update_fresh)
  have below: "\<forall>k \<in> fst ` set (futures @ [(?n, eui)]). k < length (submitted ?s')"
    using Cons.prems by auto
  have interval: "[?n..<?n + length (eui # euis)] = ?n # [Suc ?n..<Suc ?n + length euis]"
    by (subst upt_rec) simp
  show ?case
    using Cons.IH [OF below] upd interval by (simp add: submit_def)
qed

lemma foldl_record_outcome:
  "foldl (record_outcome e) s xs =
     s\<lparr>log_calls := log_calls s @
          map (\<lambda>fe. outcome_entry (snd fe) (enqueue_result e (fst fe))) xs\<rparr>"
  by (induction xs arbitrary: s) (simp_all add: record_outcome_def logger_def)

lemma payload_low: "bytes_fromhex PAYLOAD_LOW_HEX = Some [0x05, 0x00, 0x11, 0xEA, 0x60]"
  by (simp add: PAYLOAD_LOW_HEX_def hexval_def ascii_space_def)

lemma payload_high: "bytes_fromhex PAYLOAD_HIGH_HEX = Some [0x03, 0x00, 0x00]"
  by (simp add: PAYLOAD_HIGH_HEX_def hexval_def ascii_space_def)

lemma status_payload_bytes: "bytes_fromhex (status_payload status) = Some (status_bytes status)"
  by (simp add: status_payload_def status_bytes_def payload_low payload_high)

lemma send_downlink_parallel_eq:
  assumes "bytes_fromhex hex = Some payload"
  shows "send_downlink_parallel e euis hex s =
     (s\<lparr>submitted := submitted s @ map (\<lambda>eui. (eui, payload)) euis,
        log_calls := log_calls s @ recorded e (length (submitted s)) euis\<rparr>, None)"
proof -
  have "submit_all euis payload [] s =
     (zip [length (submitted s)..<length (submitted s) + length euis] euis,
      s\<lparr>submitted := submitted s @ map (\<lambda>eui. (eui, payload)) euis\<rparr>)"
    using submit_all_eq [of "[]" s euis payload] by simp
  then show ?thesis
    using assms by (simp add: send_downlink_parallel_def foldl_record_outcome recorded_def)
qed

lemma read_controllers_Inl: "read_controllers f = Inl x \<Longrightarrow> f = None \<and> x = OSError"
  by (cases f) (simp_all add: read_controllers_def)

text \<open>The unlocked part of \<^verbatim>\<open>process_status\<close> only appends work items and log calls.\<close>

lemma dispatch_frame:
  "dispatch e status s =
     (s\<lparr>submitted := submitted s @ cycle_items e status,
        log_calls := log_calls s @ cycle_log e status (length (submitted s))\<rparr>,
      cycle_exn e)"
proof (cases "read_controllers (csv e)")
  case (Inl x)
  then show ?thesis
    by (simp add: dispatch_def cycle_items_def cycle_log_def cycle_exn_def fleet_def)
next
  case (Inr ctrls)
  show ?thesis
  proof (cases "ctrls = []")
    case True
    with Inr show ?thesis
      by (simp add: dispatch_def cycle_items_def cycle_log_def cycle_exn_def fleet_def logger_def)
  next
    case False
    with Inr show ?thesis
      by (simp add: dispatch_def cycle_items_def cycle_log_def cycle_exn_def fleet_def
          logger_def send_downlink_parallel_eq [OF status_payload_bytes])
  qed
qed

lemma fleet_sample_env: "fleet sample_env = [''d1'', ''d2'', ''d1'']"
  by (simp add: fleet_def sample_env_def read_controllers_def is_controller_row_def
      strip_def isspace_def)

lemma cycle_exn_fleet: "fleet e \<noteq> [] \<Longrightarrow> cycle_exn e = None"
  by (simp add: fleet_def cycle_exn_def split: sum.splits)

lemma submitted_arm_timer: "submitted (arm_timer s) = submitted s"
  by (simp add: arm_timer_def start_new_def cancel_old_def split: option.splits)

lemma log_calls_arm_timer: "log_calls (arm_timer s) = log_calls s"
  by (simp add: arm_timer_def start_new_def cancel_old_def split: option.splits)

text \<open>
  C9. The mapping from status to payload is total and cannot fail when a
  cycle runs: \<^verbatim>\<open>'L'\<close> selects the bytes 05 00 11 EA 60, every other status
  selects 03 00 00, \<^verbatim>\<open>bytes.fromhex\<close> accepts both, and a cycle over a
  non-empty fleet raises nothing and submits these bytes for every member.
\<close>

theorem status_payload_total:
  "bytes_fromhex (status_payload ''L'') = Some [0x05, 0x00, 0x11, 0xEA, 0x60] \<and>
   (status \<noteq> ''L'' \<longrightarrow> bytes_fromhex (status_payload status) = Some [0x03, 0x00, 0x00]) \<and>
   (fleet e \<noteq> [] \<longrightarrow>
      snd (process_status e status s) = None \<and>
      submitted (fst (process_status e status s)) =
        submitted s @
        map (\<lambda>eui. (eui, if status = ''L'' then [0x05, 0x00, 0x11, 0xEA, 0x60]
                           else [0x03, 0x00, 0x00])) (fleet e))"
proof -
  have low: "bytes_fromhex (status_payload ''L'') = Some [0x05, 0x00, 0x11, 0xEA, 0x60]"
    by (simp add: status_payload_def payload_low)
  have high: "status \<noteq> ''L'' \<longrightarrow> bytes_fromhex (status_payload status) = Some [0x03, 0x00, 0x00]"
    by (simp add: status_payload_def payload_high)
  have cyc: "fleet e \<noteq> [] \<longrightarrow>
      snd (process_status e status s) = None \<and>
      submitted (fst (process_status e status s)) =
        submitted s @
        map (\<lambda>eui. (eui, if status = ''L'' then [0x05, 0x00, 0x11, 0xEA, 0x60]
                           else [0x03, 0x00, 0x00])) (fleet e)"
    by (simp add: process_status_def dispatch_frame cycle_exn_fleet cycle_items_def
        status_bytes_def submitted_arm_timer)
  from low high cyc show ?thesis by blast
qed

theorem status_payload_total_witness:
  "''X'' \<noteq> ''L'' \<and> bytes_fromhex (status_payload ''X'') = Some [0x03, 0x00, 0x00] \<and>
   fleet sample_env \<noteq> [] \<and>
   snd (process_status sample_env ''X'' (initial_state [''d1''])) = None \<and>
   submitted (fst (process_status sample_env ''X'' (initial_state [''d1'']))) =
     [(''d1'', [0x03, 0x00, 0x00]), (''d2'', [0x03, 0x00, 0x00]), (''d1'', [0x03, 0x00, 0x00])]"
  using status_payload_total [of "''X''" sample_env "initial_state [''d1'']"]
  by (simp add: fleet_sample_env initial_state_def)

lemma zip_upt_nth: "zip [n..<n + length xs] xs = map (\<lambda>k. (n + k, xs ! k)) [0..<length xs]"
  by (rule nth_equalityI) simp_all

lemma mset_recorded:
  "mset (recorded e n euis) =
   mset (map (\<lambda>k. outcome_entry (euis ! k) (enqueue_result e (n + k))) [0..<length euis])"
proof -
  have "mset (recorded e n euis) =
        image_mset (\<lambda>fe. outcome_entry (snd fe) (enqueue_result e (fst fe)))
          (mset (zip [n..<n + length euis] euis))"
    by (simp add: recorded_def as_completed_def)
  also have "\<dots> = mset (map (\<lambda>fe. outcome_entry (snd fe) (enqueue_result e (fst fe)))
                     (map (\<lambda>k. (n + k, euis ! k)) [0..<length euis]))"
    by (simp only: zip_upt_nth mset_map)
  finally show ?thesis by (simp add: comp_def)
qed

lemma upt_split_at: "j < m \<Longrightarrow> [0..<m] = [0..<j] @ j # [Suc j..<m]"
proof -
  assume "j < m"
  then have "[0..<m] = [0..<j] @ [j..<m]"
    using upt_add_eq_append [of 0 j "m - j"] by simp
  also have "[j..<m] = j # [Suc j..<m]"
    using \<open>j < m\<close> by (rule upt_conv_Cons)
  finally show ?thesis .
qed

lemma mset_map_upt_remove:
  assumes "j < m" and "\<forall>k. k \<noteq> j \<longrightarrow> g k = f k"
  shows "\<exists>rest. mset (map f [0..<m]) = add_mset (f j) rest \<and>
                 mset (map g [0..<m]) = add_mset (g j) rest"
proof -
  let ?others = "[0..<j] @ [Suc j..<m]"
  have same: "map g ?others = map f ?others"
    using assms(2) by (intro map_cong) auto
  have sameM: "mset (map g ?others) = mset (map f ?others)"
    by (simp only: same)
  have "mset (map f [0..<m]) = add_mset (f j) (mset (map f ?others))"
    by (subst upt_split_at [OF assms(1)]) simp
  moreover have "mset (map g [0..<m]) = add_mset (g j) (mset (map f ?others))"
    by (subst upt_split_at [OF assms(1)]) (use sameM in simp)
  ultimately show ?thesis by blast
qed

text \<open>
  C2. A cycle whose fleet read yields a non-empty list submits exactly one
  \<^verbatim>\<open>_enqueue\<close> work item for each entry of the list, in the order of the list
  and once for every occurrence of a repeated id, whatever the calls return:
  the work items depend on the CSV file and the status only, and nothing is
  submitted a second time.
\<close>

theorem one_enqueue_per_member:
  assumes "read_controllers (csv e) = Inr ctrls" and "ctrls \<noteq> []"
  shows "submitted (fst (process_status e status s)) =
           submitted s @ map (\<lambda>eui. (eui, status_bytes status)) ctrls \<and>
         length (submitted (fst (process_status e status s))) =
           length (submitted s) + length ctrls \<and>
         map fst (drop (length (submitted s)) (submitted (fst (process_status e status s)))) = ctrls \<and>
         (\<forall>e'. csv e' = csv e \<longrightarrow>
            submitted (fst (process_status e' status s)) =
            submitted (fst (process_status e status s)))"
proof -
  have fl: "fleet e = ctrls" using assms(1) by (simp add: fleet_def)
  have sub: "\<And>e'. csv e' = csv e \<Longrightarrow>
      submitted (fst (process_status e' status s)) =
        submitted s @ map (\<lambda>eui. (eui, status_bytes status)) ctrls"
    using assms(1)
    by (simp add: process_status_def dispatch_frame cycle_items_def fleet_def submitted_arm_timer)
  have here: "submitted (fst (process_status e status s)) =
        submitted s @ map (\<lambda>eui. (eui, status_bytes status)) ctrls"
    by (rule sub) simp
  have names: "map fst (drop (length (submitted s)) (submitted (fst (process_status e status s)))) = ctrls"
    by (simp add: here comp_def)
  show ?thesis using here names sub by simp
qed

theorem one_enqueue_per_member_witness:
  "read_controllers (csv sample_env) = Inr [''d1'', ''d2'', ''d1''] \<and>
   [''d1'', ''d2'', ''d1''] \<noteq> ([] :: string list) \<and>
   length (submitted (fst (process_status sample_env ''L'' (initial_state [''d1''])))) = 3 \<and>
   submitted (fst (process_status sample_env ''L'' (initial_state [''d1'']))) =
     [(''d1'', [0x05, 0x00, 0x11, 0xEA, 0x60]), (''d2'', [0x05, 0x00, 0x11, 0xEA, 0x60]),
      (''d1'', [0x05, 0x00, 0x11, 0xEA, 0x60])]"
proof -
  have r: "read_controllers (csv sample_env) = Inr [''d1'', ''d2'', ''d1'']"
    by (simp add: sample_env_def read_controllers_def is_controller_row_def strip_def isspace_def)
  have ne: "[''d1'', ''d2'', ''d1''] \<noteq> ([] :: string list)" by simp
  show ?thesis
    using r one_enqueue_per_member [OF r ne, of "''L''" "initial_state [''d1'']"]
    by (simp add: initial_state_def status_bytes_def)
qed

text \<open>
  C8. A cycle always runs to its end without an exception; all members are
  submitted; the log gains exactly one entry for each member, determined by
  that member's own result. Changing the result of the call for member \<open>j\<close>
  alone (to an error, a timeout or anything else) changes the entry for \<open>j\<close>
  and leaves the entries of all the other members as they were.
\<close>

theorem member_failure_isolated:
  assumes "bytes_fromhex hex = Some payload"
  shows "snd (send_downlink_parallel e euis hex s) = None \<and>
         submitted (fst (send_downlink_parallel e euis hex s)) =
           submitted s @ map (\<lambda>eui. (eui, payload)) euis \<and>
         (\<exists>new. log_calls (fst (send_downlink_parallel e euis hex s)) = log_calls s @ new \<and>
            mset new =
              mset (map (\<lambda>k. outcome_entry (euis ! k) (enqueue_result e (length (submitted s) + k)))
                      [0..<length euis]) \<and>
            (\<forall>j (e'::env). j < length euis \<and>
                (\<forall>f. f \<noteq> length (submitted s) + j \<longrightarrow> enqueue_result e' f = enqueue_result e f)
              \<longrightarrow> (\<exists>new' others.
                    log_calls (fst (send_downlink_parallel e' euis hex s)) = log_calls s @ new' \<and>
                    mset new =
                      add_mset (outcome_entry (euis ! j) (enqueue_result e (length (submitted s) + j))) others \<and>
                    mset new' =
                      add_mset (outcome_entry (euis ! j) (enqueue_result e' (length (submitted s) + j))) others)))"
proof -
  let ?n = "length (submitted s)"
  let ?entry = "\<lambda>e k. outcome_entry (euis ! k) (enqueue_result e (?n + k))"
  have eq: "\<And>e. send_downlink_parallel e euis hex s =
     (s\<lparr>submitted := submitted s @ map (\<lambda>eui. (eui, payload)) euis,
        log_calls := log_calls s @ recorded e ?n euis\<rparr>, None)"
    by (rule send_downlink_parallel_eq [OF assms])
  have iso: "\<forall>j (e'::env). j < length euis \<and> (\<forall>f. f \<noteq> ?n + j \<longrightarrow> enqueue_result e' f = enqueue_result e f)
      \<longrightarrow> (\<exists>new' others.
            log_calls (fst (send_downlink_parallel e' euis hex s)) = log_calls s @ new' \<and>
            mset (recorded e ?n euis) = add_mset (?entry e j) others \<and>
            mset new' = add_mset (?entry e' j) others)"
  proof (intro allI impI)
    fix j and e' :: env
    assume h: "j < length euis \<and> (\<forall>f. f \<noteq> ?n + j \<longrightarrow> enqueue_result e' f = enqueue_result e f)"
    then have agree: "\<forall>k. k \<noteq> j \<longrightarrow> ?entry e' k = ?entry e k" by simp
    from mset_map_upt_remove [of j "length euis" "?entry e'" "?entry e", OF _ agree] h
    obtain others where
      o: "mset (map (?entry e) [0..<length euis]) = add_mset (?entry e j) others"
         "mset (map (?entry e') [0..<length euis]) = add_mset (?entry e' j) others"
      by blast
    have "log_calls (fst (send_downlink_parallel e' euis hex s)) = log_calls s @ recorded e' ?n euis"
      by (simp add: eq)
    moreover have "mset (recorded e ?n euis) = add_mset (?entry e j) others"
      using o(1) by (simp only: mset_recorded)
    moreover have "mset (recorded e' ?n euis) = add_mset (?entry e' j) others"
      using o(2) by (simp only: mset_recorded)
    ultimately show "\<exists>new' others.
            log_calls (fst (send_downlink_parallel e' euis hex s)) = log_calls s @ new' \<and>
            mset (recorded e ?n euis) = add_mset (?entry e j) others \<and>
            mset new' = add_mset (?entry e' j) others"
      by blast
  qed
  have "log_calls (fst (send_downlink_parallel e euis hex s)) = log_calls s @ recorded e ?n euis"
    by (simp add: eq)
  with iso mset_recorded [of e ?n euis] have
    "\<exists>new. log_calls (fst (send_downlink_parallel e euis hex s)) = log_calls s @ new \<and>
        mset new = mset (map (?entry e) [0..<length euis]) \<and>
        (\<forall>j (e'::env). j < length euis \<and> (\<forall>f. f \<noteq> ?n + j \<longrightarrow> enqueue_result e' f = enqueue_result e f)
          \<longrightarrow> (\<exists>new' others.
            log_calls (fst (send_downlink_parallel e' euis hex s)) = log_calls s @ new' \<and>
            mset new = add_mset (?entry e j) others \<and>
            mset new' = add_mset (?entry e' j) others))"
    by blast
  moreover have "snd (send_downlink_parallel e euis hex s) = None" by (simp add: eq)
  moreover have "submitted (fst (send_downlink_parallel e euis hex s)) =
           submitted s @ map (\<lambda>eui. (eui, payload)) euis" by (simp add: eq)
  ultimately show ?thesis by blast
qed

theorem member_failure_isolated_witness:
  "bytes_fromhex PAYLOAD_HIGH_HEX = Some [0x03, 0x00, 0x00] \<and>
   snd (send_downlink_parallel sample_env [''d1'', ''d2'', ''d1''] PAYLOAD_HIGH_HEX
          (initial_state [''d1''])) = None \<and>
   log_calls (fst (send_downlink_parallel sample_env [''d1'', ''d2'', ''d1''] PAYLOAD_HIGH_HEX
          (initial_state [''d1'']))) =
     [Info_Downlink_enqueued ''d1'' ''ok'', Error_Timeout ''d2'', Info_Downlink_enqueued ''d1'' ''ok''] \<and>
   (1::nat) < length [''d1'', ''d2'', ''d1''] \<and>
   enqueue_result sample_env 1 = TimeoutError \<and> enqueue_result ack_env 1 = Ack ''ok'' \<and>
   enqueue_result ack_env 0 = enqueue_result sample_env 0 \<and>
   enqueue_result ack_env 2 = enqueue_result sample_env 2 \<and>
   log_calls (fst (send_downlink_parallel ack_env [''d1'', ''d2'', ''d1''] PAYLOAD_HIGH_HEX
          (initial_state [''d1'']))) =
     [Info_Downlink_enqueued ''d1'' ''ok'', Info_Downlink_enqueued ''d2'' ''ok'',
      Info_Downlink_enqueued ''d1'' ''ok'']"
  using member_failure_isolated [OF payload_high, of sample_env "[''d1'', ''d2'', ''d1'']"
      "initial_state [''d1'']"]
  by (simp add: send_downlink_parallel_eq [OF payload_high] payload_high recorded_def
      as_completed_def sample_env_def ack_env_def outcome_entry_def initial_state_def upt_rec)

section \<open>The ingestion filter\<close>

lemma py_get_obj [simp]:
  "py_get (JObj kvs) k dflt = Inr (case map_of kvs k of None \<Rightarrow> dflt | Some v \<Rightarrow> v)"
  by (simp add: py_get_def)

lemma py_get_Inr: "py_get d k dflt = Inr v \<Longrightarrow> \<exists>kvs. d = JObj kvs"
  by (cases d) (simp_all add: py_get_def)

lemma py_len_obj [simp]: "py_len (JObj kvs) = Inr (length (remdups (map fst kvs)))"
  by (simp add: py_len_def)

lemma and_then_Inr:
  "and_then r k = Inr v \<longleftrightarrow> (\<exists>a. r = Inr a \<and> k a = Inr v)"
  by (cases r) (simp_all add: and_then_def)

lemma filter_accepts_obj:
  assumes "msg_payload msg = Some (JObj kvs)"
  shows "on_message_filter msg = Inr (Some tok) \<longleftrightarrow> accepts msg tok"
proof (cases "event_type msg = Some ''up''")
  case False
  then show ?thesis using assms
    by (auto simp: on_message_filter_def accepts_def event_type_def Let_def split: if_splits)
next
  case up: True
  then have top: "\<not> length (split_str CHR ''/'' (msg_topic msg)) \<le> 5"
    "split_str CHR ''/'' (msg_topic msg) ! 5 = ''up''"
    by (auto simp: event_type_def Let_def split: if_splits)
  show ?thesis
  proof (cases "source_id msg = Some MASTER_EUI")
    case False
    then have "on_message_filter msg \<noteq> Inr (Some tok)"
      using assms top
      by (auto simp: on_message_filter_def source_id_def Let_def and_then_Inr py_get_def
          split: option.splits json.splits if_splits)
    then show ?thesis using False by (simp add: accepts_def spec_accepts_def)
  next
    case src: True
    then obtain info where info: "map_of kvs ''deviceInfo'' = Some (JObj info)"
      "map_of info ''devEui'' = Some (JStr MASTER_EUI)"
      using assms by (auto simp: source_id_def split: option.splits json.splits)
    show ?thesis
    proof (cases "object_size msg = Some 12")
      case False
      then have "on_message_filter msg \<noteq> Inr (Some tok)"
        using assms top info
        by (auto simp: on_message_filter_def object_size_def Let_def and_then_Inr py_get_def py_len_def
            split: option.splits json.splits if_splits)
      then show ?thesis using False by (simp add: accepts_def)
    next
      case sz: True
      then obtain obj where obj: "map_of kvs ''object'' = Some (JObj obj)"
        "length (remdups (map fst obj)) = 12"
        using assms by (auto simp: object_size_def split: option.splits json.splits)
      have "on_message_filter msg = Inr (Some tok) \<longleftrightarrow>
            (map_of obj ''DI1_status'' = Some (JStr tok) \<and> (tok = ''L'' \<or> tok = ''H''))"
        using assms top info obj
        by (auto simp: on_message_filter_def Let_def and_then_def split: option.splits)
      moreover have "status_token msg = Some tok \<longleftrightarrow> map_of obj ''DI1_status'' = Some (JStr tok)"
        using assms obj by (auto simp: status_token_def split: option.splits json.splits)
      ultimately show ?thesis using up src sz by (simp add: accepts_def spec_accepts_def)
    qed
  qed
qed

lemma filter_accepts: "on_message_filter msg = Inr (Some tok) \<longleftrightarrow> accepts msg tok"
proof (cases "msg_payload msg")
  case None
  then show ?thesis
    by (auto simp: on_message_filter_def accepts_def spec_accepts_def source_id_def Let_def)
next
  case (Some data)
  show ?thesis
  proof (cases "\<exists>kvs. data = JObj kvs")
    case True
    then show ?thesis using Some filter_accepts_obj by blast
  next
    case False
    then have "source_id msg = None" using Some
      by (cases data) (simp_all add: source_id_def)
    moreover have "on_message_filter msg \<noteq> Inr (Some tok)"
      using Some False
      by (auto simp: on_message_filter_def Let_def and_then_Inr dest: py_get_Inr split: if_splits)
    ultimately show ?thesis by (simp add: accepts_def spec_accepts_def)
  qed
qed

lemma accepts_sample_msg: "accepts sample_msg ''L''"
  by (simp add: accepts_def spec_accepts_def event_type_def object_size_def source_id_def
      status_token_def sample_msg_def MASTER_EUI_def)

lemma filter_sample_msg: "on_message_filter sample_msg = Inr (Some ''L'')"
  using accepts_sample_msg by (simp add: filter_accepts)

lemma cycle_log_sample:
  "cycle_log sample_env ''L'' 0 =
     [Info_Processing ''L'' 3 ''050011EA60'', Info_Downlink_enqueued ''d1'' ''ok'',
      Error_Timeout ''d2'', Info_Downlink_enqueued ''d1'' ''ok'']"
proof -
  have r: "read_controllers (csv sample_env) = Inr [''d1'', ''d2'', ''d1'']"
    by (simp add: sample_env_def read_controllers_def is_controller_row_def strip_def isspace_def)
  show ?thesis
    by (simp add: cycle_log_def r recorded_def as_completed_def status_payload_def
        PAYLOAD_LOW_HEX_def outcome_entry_def upt_rec) (simp add: sample_env_def)
qed

lemma reach_rearmed_state:
  "run [Message sample_msg, MqttDispatch sample_env, Advance 30, Wake 0, TimerLock 0]
     (initial_state [''d1'']) = Some rearmed_state"
  by (simp add: filter_sample_msg dispatch_frame cycle_items_def fleet_sample_env status_bytes_def
      cycle_log_sample cycle_exn_fleet except_Exception_def arm_timer_def start_new_def
      cancel_old_def set_phase_def initial_state_def deadline_def TIMEOUT_SECONDS_def
      rearmed_state_def)

lemma length_timers_arm_timer: "length (timers (arm_timer s)) = Suc (length (timers s))"
  by (simp add: arm_timer_def start_new_def cancel_old_def split: option.splits)

lemma fst_except_Exception:
  "timers (fst (except_Exception r)) = timers (fst r) \<and>
   submitted (fst (except_Exception r)) = submitted (fst r) \<and>
   di_timeout_timer (fst (except_Exception r)) = di_timeout_timer (fst r)"
  by (cases r) (simp add: except_Exception_def logger_def split: option.splits)

lemma snd_except_Exception: "snd (except_Exception r) = None"
  by (cases r) (simp add: except_Exception_def split: option.splits)

lemma timers_process_status:
  "length (timers (fst (process_status e status s))) = Suc (length (timers s))"
  by (simp add: process_status_def dispatch_frame length_timers_arm_timer)

lemma filter_short_msg: "on_message_filter short_msg = Inr None"
  by (simp add: on_message_filter_def short_msg_def MASTER_EUI_def and_then_def Let_def)

text \<open>
  C7 (amended). \<^verbatim>\<open>on_message\<close> never lets an exception out. It calls
  \<^verbatim>\<open>process_status(tok)\<close> exactly when the event type in the topic is \<^verbatim>\<open>up\<close>,
  the device id is the master's, the \<^verbatim>\<open>object\<close> of the payload is a dict of
  exactly twelve entries and its \<^verbatim>\<open>DI1_status\<close> is \<^verbatim>\<open>'L'\<close> or \<^verbatim>\<open>'H'\<close>; a call
  shows as one more timer. An event that is not accepted leaves the timers,
  the handle and the work items untouched, and one that fails a test without
  raising is dropped with no log call at all.
\<close>

theorem ingestion_filter:
  "snd (on_message msg e s) = None \<and>
   (on_message_filter msg = Inr (Some tok) \<longleftrightarrow> accepts msg tok) \<and>
   (accepts msg tok \<longrightarrow> on_message msg e s = except_Exception (process_status e tok s)) \<and>
   ((\<exists>t. accepts msg t) \<longleftrightarrow>
      length (timers (fst (on_message msg e s))) = Suc (length (timers s))) \<and>
   ((\<forall>t. \<not> accepts msg t) \<longrightarrow>
      timers (fst (on_message msg e s)) = timers s \<and>
      di_timeout_timer (fst (on_message msg e s)) = di_timeout_timer s \<and>
      submitted (fst (on_message msg e s)) = submitted s) \<and>
   (on_message_filter msg = Inr None \<longrightarrow> on_message msg e s = (s, None))"
proof -
  have a: "snd (on_message msg e s) = None"
    by (simp add: on_message_def snd_except_Exception)
  have b: "on_message_filter msg = Inr (Some tok) \<longleftrightarrow> accepts msg tok"
    by (rule filter_accepts)
  have c: "\<And>t. accepts msg t \<Longrightarrow> on_message msg e s = except_Exception (process_status e t s)"
    by (simp add: on_message_def filter_accepts [symmetric])
  have grow: "\<And>t. accepts msg t \<Longrightarrow>
      length (timers (fst (on_message msg e s))) = Suc (length (timers s))"
    by (simp add: c fst_except_Exception timers_process_status)
  have drop: "(\<forall>t. \<not> accepts msg t) \<Longrightarrow>
      timers (fst (on_message msg e s)) = timers s \<and>
      di_timeout_timer (fst (on_message msg e s)) = di_timeout_timer s \<and>
      submitted (fst (on_message msg e s)) = submitted s"
  proof -
    assume no: "\<forall>t. \<not> accepts msg t"
    then have "\<forall>t. on_message_filter msg \<noteq> Inr (Some t)" by (simp add: filter_accepts)
    then have "(\<exists>x. on_message_filter msg = Inl x) \<or> on_message_filter msg = Inr None"
      by (cases "on_message_filter msg") auto
    then show ?thesis
      by (auto simp: on_message_def except_Exception_def logger_def)
  qed
  have d: "(\<exists>t. accepts msg t) \<longleftrightarrow>
      length (timers (fst (on_message msg e s))) = Suc (length (timers s))"
    using grow drop by (metis n_not_Suc_n)
  have f: "on_message_filter msg = Inr None \<longrightarrow> on_message msg e s = (s, None)"
    by (simp add: on_message_def except_Exception_def)
  from a b c d drop f show ?thesis by blast
qed

theorem ingestion_filter_witness:
  "accepts sample_msg ''L'' \<and>
   on_message_filter sample_msg = Inr (Some ''L'') \<and>
   on_message sample_msg sample_env (initial_state [''d1'']) =
     except_Exception (process_status sample_env ''L'' (initial_state [''d1''])) \<and>
   length (timers (fst (on_message sample_msg sample_env (initial_state [''d1'']))))
     = Suc (length (timers (initial_state [''d1'']))) \<and>
   (\<forall>t. \<not> accepts short_msg t) \<and>
   on_message_filter short_msg = Inr None \<and>
   on_message short_msg sample_env (initial_state [''d1'']) = (initial_state [''d1''], None)"
proof -
  have no: "\<forall>t. \<not> accepts short_msg t"
    using filter_short_msg by (simp add: filter_accepts [symmetric])
  show ?thesis
    using ingestion_filter [of sample_msg sample_env "initial_state [''d1'']" "''L''"]
      ingestion_filter [of short_msg sample_env "initial_state [''d1'']" "''L''"]
      accepts_sample_msg no filter_short_msg
    by blast
qed

theorem ingestion_filter_counterexample:
  "spec_accepts short_msg ''L'' \<and>
   on_message short_msg sample_env (initial_state [''d1'']) = (initial_state [''d1''], None) \<and>
   log_calls (fst (on_message short_msg sample_env (initial_state [''d1'']))) = []"
  by (simp add: spec_accepts_def source_id_def status_token_def short_msg_def MASTER_EUI_def
      on_message_def on_message_filter_def and_then_def except_Exception_def initial_state_def)

section \<open>Empty and unreadable fleet\<close>

text \<open>
  C6 (amended). A cycle whose fleet read is empty or fails submits nothing.
  For an empty list \<^verbatim>\<open>process_status\<close> logs the error and returns. For an
  unreadable file it logs nothing and the \<^verbatim>\<open>OSError\<close> leaves it, after the
  timer has been armed again: \<^verbatim>\<open>on_message\<close> catches it on the ingestion
  path, and on the timer path it ends the timer thread.
\<close>

theorem empty_or_unreadable_fleet:
  "(read_controllers (csv e) = Inr [] \<longrightarrow>
      process_status e status s = (logger Error_No_controllers (arm_timer s), None)) \<and>
   (csv e = None \<longrightarrow> process_status e status s = (arm_timer s, Some OSError)) \<and>
   (fleet e = [] \<longrightarrow> submitted (fst (process_status e status s)) = submitted s) \<and>
   (csv e = None \<and> accepts msg status \<longrightarrow>
      on_message msg e s = (logger (Error_processing_message OSError) (arm_timer s), None)) \<and>
   (csv e = None \<and> i < length (timers s) \<and> phase (timers s ! i) = Rearmed \<longrightarrow>
      step (TimerDispatch i e) s = Some (timer_dies i OSError s))"
proof -
  have empty: "read_controllers (csv e) = Inr [] \<longrightarrow>
      process_status e status s = (logger Error_No_controllers (arm_timer s), None)"
    by (simp add: process_status_def dispatch_def)
  have unreadable: "csv e = None \<Longrightarrow> dispatch e st s' = (s', Some OSError)" for st s'
    by (simp add: dispatch_def read_controllers_def)
  have none: "fleet e = [] \<longrightarrow> submitted (fst (process_status e status s)) = submitted s"
    by (simp add: process_status_def dispatch_frame cycle_items_def submitted_arm_timer)
  have caught: "csv e = None \<and> accepts msg status \<longrightarrow>
      on_message msg e s = (logger (Error_processing_message OSError) (arm_timer s), None)"
    by (simp add: on_message_def filter_accepts [symmetric] process_status_def unreadable
        except_Exception_def)
  have dies: "csv e = None \<and> i < length (timers s) \<and> phase (timers s ! i) = Rearmed \<longrightarrow>
      step (TimerDispatch i e) s = Some (timer_dies i OSError s)"
    by (simp add: unreadable)
  from empty unreadable [of status "arm_timer s"] none caught dies show ?thesis
    by (simp add: process_status_def)
qed

theorem empty_or_unreadable_fleet_witness:
  "read_controllers (csv empty_env) = Inr [] \<and>
   fleet empty_env = [] \<and>
   process_status empty_env ''L'' rearmed_state =
     (logger Error_No_controllers (arm_timer rearmed_state), None) \<and>
   submitted (fst (process_status empty_env ''L'' rearmed_state)) = submitted rearmed_state \<and>
   csv unreadable_env = None \<and>
   fleet unreadable_env = [] \<and>
   process_status unreadable_env ''L'' rearmed_state = (arm_timer rearmed_state, Some OSError) \<and>
   submitted (fst (process_status unreadable_env ''L'' rearmed_state)) = submitted rearmed_state \<and>
   accepts sample_msg ''L'' \<and>
   on_message sample_msg unreadable_env rearmed_state =
     (logger (Error_processing_message OSError) (arm_timer rearmed_state), None) \<and>
   0 < length (timers rearmed_state) \<and> phase (timers rearmed_state ! 0) = Rearmed \<and>
   step (TimerDispatch 0 unreadable_env) rearmed_state = Some (timer_dies 0 OSError rearmed_state)"
proof -
  have r1: "read_controllers (csv empty_env) = Inr []"
    by (simp add: empty_env_def read_controllers_def is_controller_row_def strip_def isspace_def)
  have r2: "csv unreadable_env = None" by (simp add: unreadable_env_def)
  have f1: "fleet empty_env = []" using r1 by (simp add: fleet_def)
  have f2: "fleet unreadable_env = []" using r2 by (simp add: fleet_def read_controllers_def)
  have t: "0 < length (timers rearmed_state) \<and> phase (timers rearmed_state ! 0) = Rearmed"
    by (simp add: rearmed_state_def)
  show ?thesis
    using empty_or_unreadable_fleet [of empty_env "''L''" rearmed_state sample_msg 0]
      empty_or_unreadable_fleet [of unreadable_env "''L''" rearmed_state sample_msg 0]
      r1 r2 f1 f2 t accepts_sample_msg
    by (simp add: submitted_arm_timer logger_def)
qed

theorem empty_or_unreadable_fleet_counterexample:
  "csv unreadable_env = None \<and>
   snd (process_status unreadable_env ''H'' rearmed_state) = Some OSError \<and>
   log_calls (fst (process_status unreadable_env ''H'' rearmed_state)) = log_calls rearmed_state \<and>
   uncaught rearmed_state = [] \<and>
   map_option uncaught (step (TimerDispatch 0 unreadable_env) rearmed_state) = Some [OSError] \<and>
   map_option log_calls (step (TimerDispatch 0 unreadable_env) rearmed_state)
     = Some (log_calls rearmed_state)"
  by (simp add: unreadable_env_def process_status_def dispatch_def read_controllers_def
      log_calls_arm_timer rearmed_state_def timer_dies_def)

section \<open>The timer handle under interleaving\<close>

lemma handle_owns_cong:
  "timers s' = timers s \<Longrightarrow> di_timeout_timer s' = di_timeout_timer s \<Longrightarrow>
   handle_owns s' = handle_owns s"
  by (simp add: handle_owns_def)

lemma handle_owns_update:
  assumes "handle_owns s" and "\<not> outstanding t"
    and "timers s' = (timers s)[i := t]" and "di_timeout_timer s' = di_timeout_timer s"
  shows "handle_owns s'"
  unfolding handle_owns_def
proof (intro allI impI)
  fix j
  assume j: "j < length (timers s')" and out: "outstanding (timers s' ! j)"
  have jl: "j < length (timers s)" using j assms(3) by simp
  have "j \<noteq> i"
  proof
    assume "j = i"
    then have "timers s' ! j = t" using jl assms(3) by simp
    then show False using out assms(2) by simp
  qed
  then have "timers s' ! j = timers s ! j" using assms(3) by simp
  then show "di_timeout_timer s' = Some j"
    using out jl assms(1,4) by (simp add: handle_owns_def)
qed

lemma cancel_old_clears:
  assumes "handle_owns s" and "i < length (timers (cancel_old s))"
  shows "\<not> outstanding (timers (cancel_old s) ! i)"
proof (cases "di_timeout_timer s")
  case None
  then show ?thesis using assms by (auto simp: cancel_old_def handle_owns_def)
next
  case (Some h)
  have il: "i < length (timers s)" using assms(2) Some by (simp add: cancel_old_def)
  show ?thesis
  proof (cases "i = h")
    case True
    then show ?thesis using Some il by (simp add: cancel_old_def outstanding_def)
  next
    case False
    then have "timers (cancel_old s) ! i = timers s ! i"
      using Some by (simp add: cancel_old_def)
    moreover have "\<not> outstanding (timers s ! i)"
      using assms(1) il Some False by (auto simp: handle_owns_def)
    ultimately show ?thesis by simp
  qed
qed

lemma length_timers_cancel_old: "length (timers (cancel_old s)) = length (timers s)"
  by (simp add: cancel_old_def split: option.splits)

lemma arm_timer_outstanding:
  assumes "handle_owns s" and "i < length (timers (arm_timer s))"
  shows "outstanding (timers (arm_timer s) ! i) \<longleftrightarrow> i = length (timers s)"
proof (cases "i < length (timers s)")
  case True
  then have "timers (arm_timer s) ! i = timers (cancel_old s) ! i"
    by (simp add: arm_timer_def start_new_def nth_append length_timers_cancel_old)
  moreover have "\<not> outstanding (timers (cancel_old s) ! i)"
    using assms(1) True by (simp add: cancel_old_clears length_timers_cancel_old)
  ultimately show ?thesis using True by simp
next
  case False
  then have "i = length (timers s)"
    using assms(2) by (simp add: arm_timer_def start_new_def length_timers_cancel_old)
  then show ?thesis
    by (simp add: arm_timer_def start_new_def nth_append length_timers_cancel_old outstanding_def)
qed

lemma handle_arm_timer: "di_timeout_timer (arm_timer s) = Some (length (timers s))"
  by (simp add: arm_timer_def start_new_def length_timers_cancel_old)

lemma handle_owns_arm_timer: "handle_owns s \<Longrightarrow> handle_owns (arm_timer s)"
  by (simp add: handle_owns_def arm_timer_outstanding handle_arm_timer)

lemma handle_owns_step:
  assumes "step ev s = Some s'" and "handle_owns s"
  shows "handle_owns s'"
proof (cases ev)
  case (Advance d)
  then show ?thesis using assms by (auto simp: handle_owns_def)
next
  case (Message msg)
  show ?thesis
  proof (cases "on_message_filter msg")
    case (Inl x)
    then show ?thesis using assms Message
      by (auto simp: handle_owns_def logger_def split: if_splits)
  next
    case (Inr r)
    show ?thesis
    proof (cases r)
      case None
      then show ?thesis using assms Message Inr by (auto split: if_splits)
    next
      case (Some di1)
      then have "s' = (arm_timer s)\<lparr>mqtt_pc := Some di1\<rparr>"
        using assms(1) Message Inr by (auto split: if_splits)
      then show ?thesis
        using handle_owns_arm_timer [OF assms(2)] by (simp add: handle_owns_def)
    qed
  qed
next
  case (MqttDispatch e)
  then obtain di1 where "mqtt_pc s = Some di1"
    and s': "s' = (fst (except_Exception (dispatch e di1 s)))\<lparr>mqtt_pc := None\<rparr>"
    using assms(1) by (auto split: option.splits)
  have "timers s' = timers s \<and> di_timeout_timer s' = di_timeout_timer s"
    by (simp add: s' fst_except_Exception dispatch_frame)
  then show ?thesis using assms(2) by (simp add: handle_owns_def)
next
  case (Wake i)
  then obtain p where "p \<noteq> Waiting" and "s' = set_phase i p s"
    using assms(1) by (auto split: if_splits)
  then show ?thesis
    using assms(2)
    by (intro handle_owns_update [of s "(timers s ! i)\<lparr>phase := p\<rparr>" s' i])
       (simp_all add: set_phase_def outstanding_def)
next
  case (TimerLock i)
  then have s': "s' = set_phase i Rearmed (arm_timer s)"
    using assms(1) by (auto split: if_splits)
  show ?thesis
    using handle_owns_arm_timer [OF assms(2)]
    by (intro handle_owns_update
          [of "arm_timer s" "(timers (arm_timer s) ! i)\<lparr>phase := Rearmed\<rparr>" s' i])
       (simp_all add: s' set_phase_def outstanding_def)
next
  case (TimerDispatch i e)
  let ?d = "fst (dispatch e ''H'' s)"
  have d: "timers ?d = timers s \<and> di_timeout_timer ?d = di_timeout_timer s"
    by (simp add: dispatch_frame)
  then have own: "handle_owns ?d" using assms(2) by (simp add: handle_owns_def)
  have "s' = timer_returns i ?d \<or> (\<exists>x. s' = timer_dies i x ?d)"
    using assms(1) TimerDispatch by (auto split: if_splits prod.splits option.splits)
  then show ?thesis
  proof
    assume "s' = timer_returns i ?d"
    then show ?thesis
      using own
      by (intro handle_owns_update
            [of ?d "(timers ?d ! i)\<lparr>finished := True, phase := Done\<rparr>" s' i])
         (simp_all add: timer_returns_def outstanding_def)
  next
    assume "\<exists>x. s' = timer_dies i x ?d"
    then show ?thesis
      using own
      by (intro handle_owns_update [of ?d "(timers ?d ! i)\<lparr>phase := Done\<rparr>" s' i])
         (auto simp: timer_dies_def outstanding_def)
  qed
qed

lemma handle_owns_run: "run evs s = Some s' \<Longrightarrow> handle_owns s \<Longrightarrow> handle_owns s'"
proof (induction evs arbitrary: s)
  case Nil
  then show ?case by simp
next
  case (Cons ev evs)
  then obtain s1 where "step ev s = Some s1" and "run evs s1 = Some s'"
    by (auto split: option.splits)
  then show ?case using Cons.IH Cons.prems(2) handle_owns_step by blast
qed

lemma load_module_Inr:
  "load_module f = Inr s0 \<Longrightarrow>
   \<exists>ctrls. read_controllers f = Inr ctrls \<and> ctrls \<noteq> [] \<and> s0 = initial_state ctrls"
  by (auto simp: load_module_def split: sum.splits if_splits)

lemma handle_owns_initial: "handle_owns (initial_state ctrls)"
  by (simp add: handle_owns_def initial_state_def)

lemma card_at_most_one:
  assumes "handle_owns s"
  shows "card {i. i < length (timers s) \<and> outstanding (timers s ! i)} \<le> 1"
proof (cases "di_timeout_timer s")
  case None
  then have "{i. i < length (timers s) \<and> outstanding (timers s ! i)} = {}"
    using assms by (auto simp: handle_owns_def)
  then have "card {i. i < length (timers s) \<and> outstanding (timers s ! i)} = 0"
    by (simp only: card.empty)
  then show ?thesis by linarith
next
  case (Some h)
  then have "{i. i < length (timers s) \<and> outstanding (timers s ! i)} \<subseteq> {h}"
    using assms by (auto simp: handle_owns_def)
  then have "card {i. i < length (timers s) \<and> outstanding (timers s ! i)} \<le> card {h}"
    by (intro card_mono) simp_all
  then show ?thesis by simp
qed

text \<open>
  C1. In every state the program reaches from a successful load, under any
  interleaving of messages, wake-ups of timer threads and the locked and
  unlocked parts of their calls, at most one timer can still fire, and it is
  the one the handle names. The locked section first cancels: after
  \<open>cancel_old\<close> no timer can fire, and after the whole section exactly the
  new timer can, which the handle then names.
\<close>

theorem single_outstanding_timer:
  assumes "load_module f = Inr s0" and "run evs s0 = Some s"
  shows "card {i. i < length (timers s) \<and> outstanding (timers s ! i)} \<le> 1 \<and>
         (\<forall>i < length (timers s). outstanding (timers s ! i) \<longrightarrow> di_timeout_timer s = Some i) \<and>
         (\<forall>i < length (timers (cancel_old s)). \<not> outstanding (timers (cancel_old s) ! i)) \<and>
         (\<forall>i < length (timers (arm_timer s)).
            outstanding (timers (arm_timer s) ! i) \<longleftrightarrow> i = length (timers s)) \<and>
         di_timeout_timer (arm_timer s) = Some (length (timers s))"
proof -
  have "handle_owns s0"
    using load_module_Inr [OF assms(1)] handle_owns_initial by auto
  then have own: "handle_owns s"
    using assms(2) handle_owns_run by blast
  then have "\<forall>i < length (timers s). outstanding (timers s ! i) \<longrightarrow> di_timeout_timer s = Some i"
    by (simp add: handle_owns_def)
  then show ?thesis
    using own card_at_most_one cancel_old_clears arm_timer_outstanding handle_arm_timer
    by simp
qed

theorem single_outstanding_timer_witness:
  "load_module (Some [[''d1'', ''controller'']]) = Inr (initial_state [''d1'']) \<and>
   run [Message sample_msg, MqttDispatch sample_env, Advance 30, Wake 0, TimerLock 0]
     (initial_state [''d1'']) = Some rearmed_state \<and>
   card {i. i < length (timers rearmed_state) \<and> outstanding (timers rearmed_state ! i)} \<le> 1 \<and>
   outstanding (timers rearmed_state ! 1) \<and> di_timeout_timer rearmed_state = Some 1 \<and>
   \<not> outstanding (timers (cancel_old rearmed_state) ! 1) \<and>
   outstanding (timers (arm_timer rearmed_state) ! 2) \<and>
   di_timeout_timer (arm_timer rearmed_state) = Some 2"
proof -
  have l: "load_module (Some [[''d1'', ''controller'']]) = Inr (initial_state [''d1''])"
    by (simp add: load_module_def read_controllers_def is_controller_row_def strip_def
        isspace_def)
  have t: "length (timers rearmed_state) = 2 \<and> outstanding (timers rearmed_state ! 1) \<and>
           length (timers (cancel_old rearmed_state)) = 2 \<and>
           length (timers (arm_timer rearmed_state)) = 3"
    by (simp add: rearmed_state_def outstanding_def length_timers_cancel_old
        length_timers_arm_timer)
  show ?thesis
    using single_outstanding_timer [OF l reach_rearmed_state] l reach_rearmed_state t
    by simp
qed

section \<open>The worker pool and module load\<close>

lemma arm_timer_frame:
  "MAX_WORKERS (arm_timer s) = MAX_WORKERS s \<and> controllers_list (arm_timer s) = controllers_list s \<and>
   now (arm_timer s) = now s \<and> mqtt_pc (arm_timer s) = mqtt_pc s \<and> uncaught (arm_timer s) = uncaught s"
  by (simp add: arm_timer_def start_new_def cancel_old_def split: option.splits)

lemma except_Exception_frame:
  "MAX_WORKERS (fst (except_Exception r)) = MAX_WORKERS (fst r) \<and>
   controllers_list (fst (except_Exception r)) = controllers_list (fst r)"
  by (cases r) (simp add: except_Exception_def logger_def split: option.splits)

lemma step_frame:
  assumes "step ev s = Some s'"
  shows "MAX_WORKERS s' = MAX_WORKERS s \<and> controllers_list s' = controllers_list s"
proof (cases ev)
  case (Advance d)
  then show ?thesis using assms by auto
next
  case (Message msg)
  then show ?thesis using assms
    by (auto simp: logger_def arm_timer_frame split: if_splits sum.splits option.splits)
next
  case (MqttDispatch e)
  then show ?thesis using assms
    by (auto simp: except_Exception_frame dispatch_frame split: option.splits)
next
  case (Wake i)
  then show ?thesis using assms by (auto simp: set_phase_def split: if_splits)
next
  case (TimerLock i)
  then show ?thesis using assms by (auto simp: set_phase_def arm_timer_frame split: if_splits)
next
  case (TimerDispatch i e)
  then show ?thesis using assms
    by (auto simp: dispatch_frame timer_returns_def timer_dies_def split: if_splits option.splits)
qed

lemma run_frame:
  "run evs s = Some s' \<Longrightarrow>
   MAX_WORKERS s' = MAX_WORKERS s \<and> controllers_list s' = controllers_list s"
proof (induction evs arbitrary: s)
  case Nil
  then show ?case by simp
next
  case (Cons ev evs)
  then obtain s1 where "step ev s = Some s1" and "run evs s1 = Some s'"
    by (auto split: option.splits)
  then show ?case using Cons.IH step_frame by metis
qed

lemma pool_step_bound:
  assumes "pool_step ev p = Some p'" and "int (length (running p)) \<le> max_workers p"
  shows "max_workers p' = max_workers p \<and> int (length (running p')) \<le> max_workers p'"
proof (cases ev)
  case (Submit f)
  then show ?thesis using assms by auto
next
  case Start
  then show ?thesis using assms by (auto split: list.splits if_splits)
next
  case (Finish f)
  then have "p' = p\<lparr>running := remove1 f (running p)\<rparr>" and "f \<in> set (running p)"
    using assms(1) by (auto split: if_splits)
  then show ?thesis using assms(2) by (simp add: length_remove1)
qed

lemma pool_run_bound:
  "pool_run evs p = Some p' \<Longrightarrow> int (length (running p)) \<le> max_workers p \<Longrightarrow>
   max_workers p' = max_workers p \<and> int (length (running p')) \<le> max_workers p'"
proof (induction evs arbitrary: p)
  case Nil
  then show ?case by simp
next
  case (Cons ev evs)
  then obtain p1 where 1: "pool_step ev p = Some p1" and 2: "pool_run evs p1 = Some p'"
    by (auto split: option.splits)
  from pool_step_bound [OF 1 Cons.prems(2)] Cons.IH [OF 2] show ?case by simp
qed

lemma load_sample: "load_module (Some [[''d1'', ''controller'']]) = Inr (initial_state [''d1''])"
  by (simp add: load_module_def read_controllers_def is_controller_row_def strip_def isspace_def)

text \<open>
  C5 (amended). The pool is created once, at load, with
  \<open>min (number of controllers read at load) 10\<close> workers. That number is
  between 1 and 10 and no event changes it, whatever the later fleet reads
  return; a pool of that size never runs more than that many work items, and
  so never more than 10, at a time.
\<close>

theorem pool_size_fixed_at_load:
  assumes "load_module f = Inr s0" and "run evs s0 = Some s"
    and "pool_run pevs (executor s) = Some p"
  shows "read_controllers f = Inr (controllers_list s0) \<and>
         MAX_WORKERS s = min (int (length (controllers_list s0))) 10 \<and>
         1 \<le> MAX_WORKERS s \<and> MAX_WORKERS s \<le> 10 \<and>
         max_workers p = MAX_WORKERS s \<and>
         int (length (running p)) \<le> MAX_WORKERS s \<and>
         int (length (running p)) \<le> 10"
proof -
  obtain ctrls where c: "read_controllers f = Inr ctrls" "ctrls \<noteq> []" "s0 = initial_state ctrls"
    using load_module_Inr [OF assms(1)] by blast
  have s0: "controllers_list s0 = ctrls" "MAX_WORKERS s0 = min (int (length ctrls)) 10"
    by (simp_all add: c(3) initial_state_def)
  have keep: "MAX_WORKERS s = MAX_WORKERS s0" using run_frame [OF assms(2)] by simp
  have pos: "1 \<le> MAX_WORKERS s" "MAX_WORKERS s \<le> 10"
    using c(2) by (simp_all add: keep s0 Suc_le_eq)
  have "max_workers p = max_workers (executor s) \<and> int (length (running p)) \<le> max_workers p"
    using pool_run_bound [OF assms(3)] pos by (simp add: executor_def)
  then have "max_workers p = MAX_WORKERS s \<and> int (length (running p)) \<le> MAX_WORKERS s"
    by (simp add: executor_def)
  then show ?thesis using c(1) s0 keep pos by simp
qed

theorem pool_size_fixed_at_load_witness:
  "load_module (Some [[''d1'', ''controller'']]) = Inr (initial_state [''d1'']) \<and>
   run [Message sample_msg, MqttDispatch sample_env, Advance 30, Wake 0, TimerLock 0]
     (initial_state [''d1'']) = Some rearmed_state \<and>
   pool_run [Submit 0, Submit 1, Submit 2, Start, Finish 0, Start] (executor rearmed_state) =
     Some \<lparr>max_workers = 1, work_queue = [2], running = [1]\<rparr> \<and>
   pool_step Start \<lparr>max_workers = 1, work_queue = [2], running = [1]\<rparr> = None \<and>
   MAX_WORKERS rearmed_state = 1 \<and>
   int (length (running \<lparr>max_workers = 1, work_queue = [2], running = [1]\<rparr>)) \<le> 10"
proof -
  have p: "pool_run [Submit 0, Submit 1, Submit 2, Start, Finish 0, Start] (executor rearmed_state) =
     Some \<lparr>max_workers = 1, work_queue = [2], running = [1]\<rparr>"
    by (simp add: executor_def rearmed_state_def)
  show ?thesis
    using pool_size_fixed_at_load [OF load_sample reach_rearmed_state p] load_sample
      reach_rearmed_state p
    by simp
qed

theorem pool_size_fixed_at_load_counterexample:
  "load_module (Some [[''d1'', ''controller'']]) = Inr (initial_state [''d1'']) \<and>
   length (fleet sample_env) = 3 \<and>
   MAX_WORKERS (fst (process_status sample_env ''L'' (initial_state [''d1'']))) = 1 \<and>
   MAX_WORKERS (fst (process_status sample_env ''L'' (initial_state [''d1'']))) \<noteq>
     min (int (length (fleet sample_env))) 10"
  by (simp add: load_sample fleet_sample_env process_status_def dispatch_frame arm_timer_frame
      initial_state_def)

lemma no_worker: "min (int (length xs)) 10 \<le> 0 \<longleftrightarrow> xs = []"
  by (cases xs) (simp_all add: min_def)

text \<open>
  C10. Loading the module fails with \<^verbatim>\<open>ValueError\<close> exactly when the fleet read
  at load returns no controller: the executor would get \<open>min 0 10 = 0\<close>
  workers. No state exists then, so no event is processed. After a
  successful load the worker count is the one computed at load in every
  later state.
\<close>

theorem empty_fleet_at_load:
  "(load_module f = Inl ValueError \<longleftrightarrow> read_controllers f = Inr []) \<and>
   (load_module f = Inr s0 \<and> run evs s0 = Some s \<longrightarrow>
      controllers_list s0 \<noteq> [] \<and>
      MAX_WORKERS s0 = min (int (length (controllers_list s0))) 10 \<and>
      MAX_WORKERS s = MAX_WORKERS s0)"
proof -
  have a: "load_module f = Inl ValueError \<longleftrightarrow> read_controllers f = Inr []"
    by (cases "read_controllers f") (auto simp: load_module_def no_worker dest: read_controllers_Inl)
  have b: "load_module f = Inr s0 \<and> run evs s0 = Some s \<longrightarrow>
      controllers_list s0 \<noteq> [] \<and>
      MAX_WORKERS s0 = min (int (length (controllers_list s0))) 10 \<and>
      MAX_WORKERS s = MAX_WORKERS s0"
  proof
    assume h: "load_module f = Inr s0 \<and> run evs s0 = Some s"
    then obtain ctrls where c: "ctrls \<noteq> []" "s0 = initial_state ctrls"
      using load_module_Inr by blast
    show "controllers_list s0 \<noteq> [] \<and>
      MAX_WORKERS s0 = min (int (length (controllers_list s0))) 10 \<and>
      MAX_WORKERS s = MAX_WORKERS s0"
    proof -
      have "MAX_WORKERS s = MAX_WORKERS s0" using h run_frame by blast
      then show ?thesis using c by (simp add: initial_state_def)
    qed
  qed
  from a b show ?thesis by blast
qed

theorem empty_fleet_at_load_witness:
  "read_controllers (Some [[''gw'', ''gateway'']]) = Inr [] \<and>
   load_module (Some [[''gw'', ''gateway'']]) = Inl ValueError \<and>
   load_module (Some [[''d1'', ''controller'']]) = Inr (initial_state [''d1'']) \<and>
   run [Message sample_msg, MqttDispatch sample_env, Advance 30, Wake 0, TimerLock 0]
     (initial_state [''d1'']) = Some rearmed_state \<and>
   length (fleet sample_env) = 3 \<and>
   MAX_WORKERS rearmed_state = MAX_WORKERS (initial_state [''d1'']) \<and>
   MAX_WORKERS (initial_state [''d1'']) = 1"
proof -
  have r: "read_controllers (Some [[''gw'', ''gateway'']]) = Inr []"
    by (simp add: read_controllers_def is_controller_row_def strip_def isspace_def)
  show ?thesis
    using empty_fleet_at_load [of "Some [[''gw'', ''gateway'']]"]
      empty_fleet_at_load [of "Some [[''d1'', ''controller'']]" "initial_state [''d1'']"
        "[Message sample_msg, MqttDispatch sample_env, Advance 30, Wake 0, TimerLock 0]"
        rearmed_state]
      r load_sample reach_rearmed_state fleet_sample_env
    by (simp add: initial_state_def)
qed

section \<open>Start-up\<close>

lemma reach_armed_state:
  "run [Message sample_msg, MqttDispatch sample_env] (initial_state [''d1'']) = Some armed_state"
  by (simp add: filter_sample_msg dispatch_frame cycle_items_def fleet_sample_env status_bytes_def
      cycle_log_sample cycle_exn_fleet except_Exception_def arm_timer_def start_new_def
      cancel_old_def initial_state_def TIMEOUT_SECONDS_def armed_state_def)

lemma quiet_step:
  assumes "step ev s = Some s'" and "\<not> is_message ev"
    and "timers s = []" and "di_timeout_timer s = None" and "mqtt_pc s = None"
    and "submitted s = []" and "log_calls s = []"
  shows "(\<exists>d. ev = Advance d) \<and> timers s' = [] \<and> di_timeout_timer s' = None \<and>
         mqtt_pc s' = None \<and> submitted s' = [] \<and> log_calls s' = []"
  using assms by (cases ev) auto

lemma quiet_run:
  assumes "run evs s = Some s'" and "\<forall>ev \<in> set evs. \<not> is_message ev"
    and "timers s = []" and "di_timeout_timer s = None" and "mqtt_pc s = None"
    and "submitted s = []" and "log_calls s = []"
  shows "(\<forall>ev \<in> set evs. \<exists>d. ev = Advance d) \<and> timers s' = [] \<and> di_timeout_timer s' = None \<and>
         mqtt_pc s' = None \<and> submitted s' = [] \<and> log_calls s' = []"
  using assms
proof (induction evs arbitrary: s)
  case Nil
  then show ?case by simp
next
  case (Cons ev evs)
  from Cons.prems(1) obtain s1 where 1: "step ev s = Some s1" and 2: "run evs s1 = Some s'"
    by (auto split: option.splits)
  have q: "(\<exists>d. ev = Advance d) \<and> timers s1 = [] \<and> di_timeout_timer s1 = None \<and>
         mqtt_pc s1 = None \<and> submitted s1 = [] \<and> log_calls s1 = []"
    using quiet_step [OF 1] Cons.prems by simp
  have "(\<forall>ev \<in> set evs. \<exists>d. ev = Advance d) \<and> timers s' = [] \<and> di_timeout_timer s' = None \<and>
         mqtt_pc s' = None \<and> submitted s' = [] \<and> log_calls s' = []"
    using Cons.IH [OF 2] Cons.prems(2) q by simp
  then show ?case using q by simp
qed

lemma first_arm:
  assumes "timers s = []"
  shows "timers (fst (process_status e status s)) =
           [\<lparr>interval = TIMEOUT_SECONDS, started_at = now s, finished = False, phase = Waiting\<rparr>] \<and>
         di_timeout_timer (fst (process_status e status s)) = Some 0"
  using assms
  by (simp add: process_status_def dispatch_frame arm_timer_def start_new_def cancel_old_def
      split: option.splits)

text \<open>
  C4 (amended). After a successful load the handle is \<^verbatim>\<open>None\<close> and no timer
  exists. As long as no message arrives nothing but the passing of time can
  happen: no timer thread exists that could wake, no cycle runs, nothing is
  submitted or logged. The first call of \<^verbatim>\<open>process_status\<close> arms the first
  timer, due one watchdog window after that call.
\<close>

theorem startup_unarmed:
  assumes "load_module f = Inr s0" and "run evs s0 = Some s"
    and "\<forall>ev \<in> set evs. \<not> is_message ev"
  shows "di_timeout_timer s0 = None \<and> timers s0 = [] \<and>
         (\<forall>ev \<in> set evs. \<exists>d. ev = Advance d) \<and>
         di_timeout_timer s = None \<and> timers s = [] \<and> submitted s = [] \<and> log_calls s = [] \<and>
         (\<forall>i. step (Wake i) s = None) \<and>
         (\<forall>e status.
            di_timeout_timer (fst (process_status e status s)) = Some 0 \<and>
            outstanding (timers (fst (process_status e status s)) ! 0) \<and>
            deadline (timers (fst (process_status e status s)) ! 0) = now s + TIMEOUT_SECONDS)"
proof -
  obtain ctrls where c: "s0 = initial_state ctrls"
    using load_module_Inr [OF assms(1)] by blast
  have q0: "timers s0 = []" "di_timeout_timer s0 = None" "mqtt_pc s0 = None"
    "submitted s0 = []" "log_calls s0 = []"
    by (simp_all add: c initial_state_def)
  have q: "(\<forall>ev \<in> set evs. \<exists>d. ev = Advance d) \<and> timers s = [] \<and> di_timeout_timer s = None \<and>
         mqtt_pc s = None \<and> submitted s = [] \<and> log_calls s = []"
    by (rule quiet_run [OF assms(2,3) q0])
  then have t: "timers s = []" by simp
  have w: "\<forall>i. step (Wake i) s = None" using t by simp
  have arm: "\<forall>e status.
            di_timeout_timer (fst (process_status e status s)) = Some 0 \<and>
            outstanding (timers (fst (process_status e status s)) ! 0) \<and>
            deadline (timers (fst (process_status e status s)) ! 0) = now s + TIMEOUT_SECONDS"
    by (simp add: first_arm [OF t] outstanding_def deadline_def)
  from q0 q w arm show ?thesis by simp
qed

theorem startup_unarmed_witness:
  "load_module (Some [[''d1'', ''controller'']]) = Inr (initial_state [''d1'']) \<and>
   run [Advance 30, Advance 970] (initial_state [''d1'']) =
     Some ((initial_state [''d1''])\<lparr>now := 1000\<rparr>) \<and>
   \<not> is_message (Advance 30) \<and> \<not> is_message (Advance 970) \<and>
   timers ((initial_state [''d1''])\<lparr>now := 1000\<rparr>) = [] \<and>
   submitted ((initial_state [''d1''])\<lparr>now := 1000\<rparr>) = [] \<and>
   step (Wake 0) ((initial_state [''d1''])\<lparr>now := 1000\<rparr>) = None \<and>
   deadline (timers (fst (process_status sample_env ''L''
      ((initial_state [''d1''])\<lparr>now := 1000\<rparr>))) ! 0) = 1030"
proof -
  have r: "run [Advance 30, Advance 970] (initial_state [''d1'']) =
     Some ((initial_state [''d1''])\<lparr>now := 1000\<rparr>)"
    by (simp add: initial_state_def)
  have m: "\<forall>ev \<in> set [Advance 30, Advance 970]. \<not> is_message ev" by simp
  show ?thesis
    using startup_unarmed [OF load_sample r m] load_sample r m
    by (simp add: TIMEOUT_SECONDS_def)
qed

theorem startup_unarmed_counterexample:
  "load_module (Some [[''d1'', ''controller'']]) = Inr (initial_state [''d1'']) \<and>
   di_timeout_timer (initial_state [''d1'']) = None \<and>
   timers (initial_state [''d1'']) = [] \<and>
   run [Advance 1000] (initial_state [''d1'']) = Some ((initial_state [''d1''])\<lparr>now := 1000\<rparr>) \<and>
   step (Wake 0) ((initial_state [''d1''])\<lparr>now := 1000\<rparr>) = None \<and>
   submitted ((initial_state [''d1''])\<lparr>now := 1000\<rparr>) = []"
  by (simp add: load_sample) (simp add: initial_state_def)

section \<open>The deadman timer under silence\<close>

lemma expiry_round:
  assumes h: "di_timeout_timer s = Some i" and il: "i < length (timers s)"
    and out: "outstanding (timers s ! i)" and due: "now s \<le> deadline (timers s ! i)"
  shows "\<exists>s'. run (expiry i e s) s = Some s' \<and>
      now s' = deadline (timers s ! i) \<and>
      timers s' = (timers s)[i := (timers s ! i)\<lparr>finished := True, phase := Done\<rparr>] @
        [\<lparr>interval = TIMEOUT_SECONDS, started_at = deadline (timers s ! i),
          finished = False, phase = Waiting\<rparr>] \<and>
      di_timeout_timer s' = Some (length (timers s)) \<and>
      submitted s' = submitted s @ cycle_items e ''H'' \<and>
      log_calls s' = log_calls s @ cycle_log e ''H'' (length (submitted s)) \<and>
      uncaught s' = uncaught s @ (case cycle_exn e of None \<Rightarrow> [] | Some x \<Rightarrow> [x])"
proof -
  let ?d = "deadline (timers s ! i)"
  let ?t = "timers s ! i"
  let ?new = "\<lparr>interval = TIMEOUT_SECONDS, started_at = ?d, finished = False, phase = Waiting\<rparr>"
  define s1 where "s1 = s\<lparr>now := ?d\<rparr>"
  define s2 where "s2 = s1\<lparr>timers := (timers s)[i := ?t\<lparr>phase := Called\<rparr>]\<rparr>"
  define s3 where "s3 = s2\<lparr>timers := (timers s)[i := ?t\<lparr>finished := True, phase := Rearmed\<rparr>] @ [?new],
                           di_timeout_timer := Some (length (timers s))\<rparr>"
  have ph: "phase ?t = Waiting" "\<not> finished ?t" using out by (simp_all add: outstanding_def)
  have a1: "step (Advance (?d - now s)) s = Some s1"
    using due by (simp add: s1_def)
  have a2: "step (Wake i) s1 = Some s2"
    using il ph by (simp add: s1_def s2_def set_phase_def)
  have arm: "arm_timer s2 = s2\<lparr>timers := (timers s)[i := ?t\<lparr>phase := Called, finished := True\<rparr>] @ [?new],
                           di_timeout_timer := Some (length (timers s))\<rparr>"
    using il h by (simp add: arm_timer_def cancel_old_def start_new_def s2_def s1_def)
  have a3: "step (TimerLock i) s2 = Some s3"
    using il by (simp add: arm set_phase_def s3_def nth_append list_update_append)
       (simp add: s2_def s1_def)
  have pre: "i < length (timers s3) \<and> phase (timers s3 ! i) = Rearmed"
    using il by (simp add: s3_def nth_append)
  have fields: "now s3 = ?d" "submitted s3 = submitted s" "log_calls s3 = log_calls s"
    "uncaught s3 = uncaught s" "di_timeout_timer s3 = Some (length (timers s))"
    by (simp_all add: s3_def s2_def s1_def)
  have upd: "(timers s3)[i := (timers s3 ! i)\<lparr>finished := True, phase := Done\<rparr>] =
             (timers s)[i := ?t\<lparr>finished := True, phase := Done\<rparr>] @ [?new]"
       "(timers s3)[i := (timers s3 ! i)\<lparr>phase := Done\<rparr>] =
             (timers s)[i := ?t\<lparr>finished := True, phase := Done\<rparr>] @ [?new]"
    using il by (simp_all add: s3_def nth_append list_update_append)
  show ?thesis
  proof (cases "cycle_exn e")
    case None
    then have a4: "step (TimerDispatch i e) s3 =
        Some (timer_returns i (fst (dispatch e ''H'' s3)))"
      using pre by (simp add: dispatch_frame)
    have "run (expiry i e s) s = Some (timer_returns i (fst (dispatch e ''H'' s3)))"
      by (simp add: expiry_def a1 a2 a3 a4 del: step.simps)
    then show ?thesis
      using None fields upd by (simp add: timer_returns_def dispatch_frame)
  next
    case (Some x)
    then have a4: "step (TimerDispatch i e) s3 =
        Some (timer_dies i x (fst (dispatch e ''H'' s3)))"
      using pre by (simp add: dispatch_frame)
    have "run (expiry i e s) s = Some (timer_dies i x (fst (dispatch e ''H'' s3)))"
      by (simp add: expiry_def a1 a2 a3 a4 del: step.simps)
    then show ?thesis
      using Some fields upd by (simp add: timer_dies_def dispatch_frame)
  qed
qed


lemma silence_rounds:
  assumes "di_timeout_timer s = Some i" and "i < length (timers s)"
    and "outstanding (timers s ! i)" and "now s \<le> deadline (timers s ! i)"
  shows "\<exists>s'. silence es s = Some s' \<and>
      length (timers s') = length (timers s) + length es \<and>
      (\<exists>j. di_timeout_timer s' = Some j \<and> j < length (timers s') \<and>
           outstanding (timers s' ! j) \<and> now s' \<le> deadline (timers s' ! j) \<and>
           deadline (timers s' ! j) = deadline (timers s ! i) + TIMEOUT_SECONDS * length es) \<and>
      submitted s' = submitted s @ concat (map (\<lambda>e. cycle_items e ''H'') es) \<and>
      (es \<noteq> [] \<longrightarrow> now s' = deadline (timers s ! i) + TIMEOUT_SECONDS * (length es - 1))"
  using assms
proof (induction es arbitrary: s i)
  case Nil
  then show ?case by simp
next
  case (Cons e es)
  let ?d = "deadline (timers s ! i)"
  let ?n = "length (timers s)"
  from expiry_round [OF Cons.prems, of e] obtain s1 where
    r: "run (expiry i e s) s = Some s1" and
    n1: "now s1 = ?d" and
    t1: "timers s1 = (timers s)[i := (timers s ! i)\<lparr>finished := True, phase := Done\<rparr>] @
        [\<lparr>interval = TIMEOUT_SECONDS, started_at = ?d, finished = False, phase = Waiting\<rparr>]" and
    h1: "di_timeout_timer s1 = Some ?n" and
    sub1: "submitted s1 = submitted s @ cycle_items e ''H''"
    by blast
  have new: "timers s1 ! ?n =
      \<lparr>interval = TIMEOUT_SECONDS, started_at = ?d, finished = False, phase = Waiting\<rparr>"
    by (simp add: t1 nth_append)
  have len1: "length (timers s1) = Suc ?n" by (simp add: t1)
  have p1: "?n < length (timers s1)" by (simp add: len1)
  have p2: "outstanding (timers s1 ! ?n)" by (simp add: new outstanding_def)
  have d1: "deadline (timers s1 ! ?n) = ?d + TIMEOUT_SECONDS" by (simp add: new deadline_def)
  have p3: "now s1 \<le> deadline (timers s1 ! ?n)" by (simp add: n1 d1)
  from Cons.IH [OF h1 p1 p2 p3] obtain s' j where
    ih: "silence es s1 = Some s'"
      "length (timers s') = length (timers s1) + length es"
      "di_timeout_timer s' = Some j" "j < length (timers s')"
      "outstanding (timers s' ! j)" "now s' \<le> deadline (timers s' ! j)"
      "deadline (timers s' ! j) = deadline (timers s1 ! ?n) + TIMEOUT_SECONDS * length es"
      "submitted s' = submitted s1 @ concat (map (\<lambda>e. cycle_items e ''H'') es)"
      "es \<noteq> [] \<longrightarrow> now s' = deadline (timers s1 ! ?n) + TIMEOUT_SECONDS * (length es - 1)"
    by blast
  have run: "silence (e # es) s = Some s'"
    using Cons.prems(1) r ih(1) by simp
  have time: "now s' = ?d + TIMEOUT_SECONDS * (length (e # es) - 1)"
  proof (cases es)
    case Nil
    then have "s' = s1" using ih(1) by simp
    then show ?thesis using Nil n1 by simp
  next
    case (Cons e' es')
    then have "now s' = ?d + TIMEOUT_SECONDS + TIMEOUT_SECONDS * (length es - 1)"
      using ih(9) d1 by simp
    then show ?thesis using Cons by simp
  qed
  have dl: "deadline (timers s' ! j) = ?d + TIMEOUT_SECONDS * length (e # es)"
    using ih(7) d1 by simp
  have sub: "submitted s' = submitted s @ concat (map (\<lambda>e. cycle_items e ''H'') (e # es))"
    using ih(8) sub1 by simp
  have len: "length (timers s') = ?n + length (e # es)"
    using ih(2) len1 by simp
  show ?case
    using run len ih(3,4,5,6) dl sub time by blast
qed

lemma timer_call_is_process_status:
  assumes "i < length (timers s)" and "phase (timers s ! i) = Called"
  shows "\<exists>s2. run [TimerLock i, TimerDispatch i e] s = Some s2 \<and>
      now s2 = now (fst (process_status e ''H'' s)) \<and>
      di_timeout_timer s2 = di_timeout_timer (fst (process_status e ''H'' s)) \<and>
      submitted s2 = submitted (fst (process_status e ''H'' s)) \<and>
      log_calls s2 = log_calls (fst (process_status e ''H'' s)) \<and>
      length (timers s2) = length (timers (fst (process_status e ''H'' s))) \<and>
      (\<forall>j. j \<noteq> i \<longrightarrow> timers s2 ! j = timers (fst (process_status e ''H'' s)) ! j)"
proof -
  let ?s1 = "set_phase i Rearmed (arm_timer s)"
  have il: "i < length (timers (arm_timer s))"
    using assms(1) by (simp add: length_timers_arm_timer)
  have a1: "step (TimerLock i) s = Some ?s1" using assms by simp
  have pre: "i < length (timers ?s1) \<and> phase (timers ?s1 ! i) = Rearmed"
    using il by (simp add: set_phase_def)
  have same: "now ?s1 = now (arm_timer s)" "di_timeout_timer ?s1 = di_timeout_timer (arm_timer s)"
    "submitted ?s1 = submitted (arm_timer s)" "log_calls ?s1 = log_calls (arm_timer s)"
    "length (timers ?s1) = length (timers (arm_timer s))"
    "\<forall>j. j \<noteq> i \<longrightarrow> timers ?s1 ! j = timers (arm_timer s) ! j"
    by (simp_all add: set_phase_def)
  show ?thesis
  proof (cases "cycle_exn e")
    case None
    then have a2: "step (TimerDispatch i e) ?s1 = Some (timer_returns i (fst (dispatch e ''H'' ?s1)))"
      using pre by (simp add: dispatch_frame)
    have "run [TimerLock i, TimerDispatch i e] s = Some (timer_returns i (fst (dispatch e ''H'' ?s1)))"
      by (simp add: a1 a2 del: step.simps)
    then show ?thesis
      using same by (simp add: timer_returns_def dispatch_frame process_status_def)
  next
    case (Some x)
    then have a2: "step (TimerDispatch i e) ?s1 = Some (timer_dies i x (fst (dispatch e ''H'' ?s1)))"
      using pre by (simp add: dispatch_frame)
    have "run [TimerLock i, TimerDispatch i e] s = Some (timer_dies i x (fst (dispatch e ''H'' ?s1)))"
      by (simp add: a1 a2 del: step.simps)
    then show ?thesis
      using same by (simp add: timer_dies_def dispatch_frame process_status_def)
  qed
qed

lemma wake_due:
  assumes "i < length (timers s)" and "outstanding (timers s ! i)"
    and "now s \<le> deadline (timers s ! i)"
  shows "\<exists>s1. run [Advance (deadline (timers s ! i) - now s), Wake i] s = Some s1 \<and>
      i < length (timers s1) \<and> phase (timers s1 ! i) = Called \<and>
      now s1 = deadline (timers s ! i)"
  using assms by (simp add: outstanding_def set_phase_def)

lemma fleet_unreadable_env: "fleet unreadable_env = []"
  by (simp add: fleet_def unreadable_env_def read_controllers_def)

lemma fleet_empty_env: "fleet empty_env = []"
  by (simp add: fleet_def empty_env_def read_controllers_def is_controller_row_def strip_def
      isspace_def)

text \<open>
  C3. Let the handle name a timer that can still fire and is not yet overdue.
  When it expires at its deadline, its thread runs \<^verbatim>\<open>process_status('H')\<close>: the
  state it leaves agrees with the result of that call in the clock, the
  handle, the work items, the log and every timer but the expired one, whose
  thread has ended. Under silence this repeats for any number \<open>k\<close> of
  windows: \<open>k\<close> expiries create \<open>k\<close> new timers, each cycle submits the
  bytes 03 00 00 to the members it reads, the \<open>k\<close>-th cycle runs at the first
  deadline plus \<open>k - 1\<close> windows, and afterwards a timer is armed again for
  the window that follows.
\<close>

theorem deadman_expiry:
  assumes "di_timeout_timer s = Some i" and "i < length (timers s)"
    and "outstanding (timers s ! i)" and "now s \<le> deadline (timers s ! i)"
  shows "(\<exists>s1 s2. run [Advance (deadline (timers s ! i) - now s), Wake i] s = Some s1 \<and>
            now s1 = deadline (timers s ! i) \<and>
            run [TimerLock i, TimerDispatch i e] s1 = Some s2 \<and>
            now s2 = now (fst (process_status e ''H'' s1)) \<and>
            di_timeout_timer s2 = di_timeout_timer (fst (process_status e ''H'' s1)) \<and>
            submitted s2 = submitted (fst (process_status e ''H'' s1)) \<and>
            log_calls s2 = log_calls (fst (process_status e ''H'' s1)) \<and>
            length (timers s2) = length (timers (fst (process_status e ''H'' s1))) \<and>
            (\<forall>j. j \<noteq> i \<longrightarrow> timers s2 ! j = timers (fst (process_status e ''H'' s1)) ! j)) \<and>
         (\<exists>s'. silence es s = Some s' \<and>
            length (timers s') = length (timers s) + length es \<and>
            (\<exists>j. di_timeout_timer s' = Some j \<and> j < length (timers s') \<and>
                 outstanding (timers s' ! j) \<and> now s' \<le> deadline (timers s' ! j) \<and>
                 deadline (timers s' ! j) = deadline (timers s ! i) + TIMEOUT_SECONDS * length es) \<and>
            submitted s' =
              submitted s @ concat (map (\<lambda>e. map (\<lambda>eui. (eui, [0x03, 0x00, 0x00])) (fleet e)) es) \<and>
            (es \<noteq> [] \<longrightarrow>
               now s' = deadline (timers s ! i) + TIMEOUT_SECONDS * (length es - 1)))"
proof -
  from wake_due [OF assms(2,3,4)] obtain s1 where
    w: "run [Advance (deadline (timers s ! i) - now s), Wake i] s = Some s1"
       "i < length (timers s1)" "phase (timers s1 ! i) = Called"
       "now s1 = deadline (timers s ! i)"
    by blast
  from timer_call_is_process_status [OF w(2,3), of e] w(1,4)
  have one: "\<exists>s1 s2. run [Advance (deadline (timers s ! i) - now s), Wake i] s = Some s1 \<and>
            now s1 = deadline (timers s ! i) \<and>
            run [TimerLock i, TimerDispatch i e] s1 = Some s2 \<and>
            now s2 = now (fst (process_status e ''H'' s1)) \<and>
            di_timeout_timer s2 = di_timeout_timer (fst (process_status e ''H'' s1)) \<and>
            submitted s2 = submitted (fst (process_status e ''H'' s1)) \<and>
            log_calls s2 = log_calls (fst (process_status e ''H'' s1)) \<and>
            length (timers s2) = length (timers (fst (process_status e ''H'' s1))) \<and>
            (\<forall>j. j \<noteq> i \<longrightarrow> timers s2 ! j = timers (fst (process_status e ''H'' s1)) ! j)"
    by blast
  have items: "(\<lambda>e. cycle_items e ''H'') = (\<lambda>e. map (\<lambda>eui. (eui, [0x03, 0x00, 0x00])) (fleet e))"
    by (simp add: cycle_items_def status_bytes_def fun_eq_iff)
  from silence_rounds [OF assms, of es] have many:
    "\<exists>s'. silence es s = Some s' \<and>
            length (timers s') = length (timers s) + length es \<and>
            (\<exists>j. di_timeout_timer s' = Some j \<and> j < length (timers s') \<and>
                 outstanding (timers s' ! j) \<and> now s' \<le> deadline (timers s' ! j) \<and>
                 deadline (timers s' ! j) = deadline (timers s ! i) + TIMEOUT_SECONDS * length es) \<and>
            submitted s' =
              submitted s @ concat (map (\<lambda>e. map (\<lambda>eui. (eui, [0x03, 0x00, 0x00])) (fleet e)) es) \<and>
            (es \<noteq> [] \<longrightarrow>
               now s' = deadline (timers s ! i) + TIMEOUT_SECONDS * (length es - 1))"
    by (simp only: items)
  from one many show ?thesis by (rule conjI)
qed

theorem deadman_expiry_witness:
  "di_timeout_timer armed_state = Some 0 \<and> 0 < length (timers armed_state) \<and>
   outstanding (timers armed_state ! 0) \<and> now armed_state \<le> deadline (timers armed_state ! 0) \<and>
   (\<exists>s'. silence [sample_env, unreadable_env, empty_env] armed_state = Some s' \<and>
      length (timers s') = 4 \<and> now s' = 90 \<and>
      submitted s' = submitted armed_state @
        [(''d1'', [0x03, 0x00, 0x00]), (''d2'', [0x03, 0x00, 0x00]), (''d1'', [0x03, 0x00, 0x00])] \<and>
      (\<exists>j. di_timeout_timer s' = Some j \<and> outstanding (timers s' ! j) \<and>
           deadline (timers s' ! j) = 120))"
proof -
  have h: "di_timeout_timer armed_state = Some 0" "0 < length (timers armed_state)"
    "outstanding (timers armed_state ! 0)" "now armed_state \<le> deadline (timers armed_state ! 0)"
    by (simp_all add: armed_state_def outstanding_def deadline_def)
  have v: "length (timers armed_state) = 1" "deadline (timers armed_state ! 0) = 30"
    by (simp_all add: armed_state_def deadline_def)
  define es where "es = [sample_env, unreadable_env, empty_env]"
  have len: "length es = 3" "es \<noteq> []" by (simp_all add: es_def)
  have items: "concat (map (\<lambda>e. map (\<lambda>eui. (eui, [0x03, 0x00, 0x00 :: byte])) (fleet e)) es) =
      [(''d1'', [0x03, 0x00, 0x00]), (''d2'', [0x03, 0x00, 0x00]), (''d1'', [0x03, 0x00, 0x00])]"
    by (simp add: es_def fleet_sample_env fleet_unreadable_env fleet_empty_env)
  from deadman_expiry [OF h, of sample_env es, THEN conjunct2] obtain s' j where
    f: "silence es armed_state = Some s'"
      "length (timers s') = length (timers armed_state) + length es"
      "di_timeout_timer s' = Some j" "outstanding (timers s' ! j)"
      "deadline (timers s' ! j) = deadline (timers armed_state ! 0) + TIMEOUT_SECONDS * length es"
      "submitted s' = submitted armed_state @
         concat (map (\<lambda>e. map (\<lambda>eui. (eui, [0x03, 0x00, 0x00])) (fleet e)) es)"
      "es \<noteq> [] \<longrightarrow> now s' = deadline (timers armed_state ! 0) + TIMEOUT_SECONDS * (length es - 1)"
    by blast
  have "length (timers s') = 4" using f(2) by (simp add: v len)
  moreover have "now s' = 90" using f(7) by (simp add: v len TIMEOUT_SECONDS_def)
  moreover have "deadline (timers s' ! j) = 120" using f(5) by (simp add: v len TIMEOUT_SECONDS_def)
  moreover have "submitted s' = submitted armed_state @
        [(''d1'', [0x03, 0x00, 0x00]), (''d2'', [0x03, 0x00, 0x00]), (''d1'', [0x03, 0x00, 0x00])]"
    using f(6) by (simp only: items)
  ultimately have "\<exists>s'. silence [sample_env, unreadable_env, empty_env] armed_state = Some s' \<and>
      length (timers s') = 4 \<and> now s' = 90 \<and>
      submitted s' = submitted armed_state @
        [(''d1'', [0x03, 0x00, 0x00]), (''d2'', [0x03, 0x00, 0x00]), (''d1'', [0x03, 0x00, 0x00])] \<and>
      (\<exists>j. di_timeout_timer s' = Some j \<and> outstanding (timers s' ! j) \<and>
           deadline (timers s' ! j) = 120)"
    using f(1,3,4) unfolding es_def by blast
  with h show ?thesis by blast
qed

section \<open>The actions of the MQTT thread make up \<^verbatim>\<open>on_message\<close>\<close>

text \<open>
  Run without another thread in between, the actions of the MQTT loop thread
  for one message leave the state that \<^verbatim>\<open>on_message\<close> returns.
\<close>

lemma message_events_are_on_message:
  assumes "mqtt_pc s = None"
  shows "(case on_message_filter msg of
            Inr (Some tok) \<Rightarrow> run [Message msg, MqttDispatch e] s
          | _ \<Rightarrow> run [Message msg] s) = Some (fst (on_message msg e s))"
proof (cases "on_message_filter msg")
  case (Inl x)
  then show ?thesis using assms by (simp add: on_message_def except_Exception_def)
next
  case (Inr r)
  show ?thesis
  proof (cases r)
    case None
    then show ?thesis using assms Inr by (simp add: on_message_def except_Exception_def)
  next
    case (Some tok)
    have pc: "mqtt_pc (arm_timer s) = None" using assms by (simp add: arm_timer_frame)
    show ?thesis
      using assms Inr Some pc
      by (cases "cycle_exn e")
         (simp_all add: on_message_def process_status_def dispatch_frame except_Exception_def
           logger_def)
  qed
qed

end
